theory Spec2Isabelle
  imports Main
begin

section \<open>GenMap: the NSGA2 optimiser and the mapping-width objective\<close>

text \<open>
  A shallow embedding of \<^verbatim>\<open>NSGA2.py\<close> and \<^verbatim>\<open>MapWidthEval.py\<close>.
  Python integers are \<open>int\<close>, lists are lists, an exception is the \<open>Inl\<close> branch of a
  sum, printed lines are returned as a list of strings, and objects that the code
  mutates in place are passed in and returned.
\<close>

subsection \<open>Exceptions\<close>

datatype error = ValueError | TypeError

subsection \<open>The optimiser object\<close>

text \<open>
  The fields of \<^verbatim>\<open>NSGA2\<close> that \<^verbatim>\<open>set_ref_point\<close>, \<^verbatim>\<open>setup\<close> and the end of
  \<^verbatim>\<open>runOptimization\<close> read and write: the objective list \<^verbatim>\<open>__eval_list\<close>, the flag
  \<^verbatim>\<open>__hv_logging\<close> and the manual reference point \<^verbatim>\<open>__hv_refpoint\<close> (\<open>None\<close> until set).
\<close>

record ('o, 'v) nsga2 =
  eval_list :: "'o list"
  hv_logging :: bool
  hv_refpoint :: "'v list option"

text \<open>
  \<^verbatim>\<open>__init__\<close>, after the configuration has been read: at least one objective is
  needed; \<^verbatim>\<open>__hv_logging\<close> starts as \<open>True\<close> and is cleared when importing the
  hypervolume class raises \<^verbatim>\<open>ImportError\<close> (\<open>hv_importable = False\<close>).
\<close>

definition nsga2_init :: "'o list \<Rightarrow> bool \<Rightarrow> error + ('o, 'v) nsga2" where
  "nsga2_init evals hv_importable =
     (if length evals = 0 then Inl ValueError
      else Inr \<lparr>eval_list = evals,
                hv_logging = (if hv_importable then True else False),
                hv_refpoint = None\<rparr>)"

text \<open>
  \<^verbatim>\<open>setup\<close>: its first statement clears \<^verbatim>\<open>__hv_logging\<close> for a single objective; the
  result is \<open>False\<close> when the placer produced no initial mapping (\<open>init_maps\<close> is the
  placer's answer), \<open>True\<close> otherwise.
\<close>

definition nsga2_setup :: "('o, 'v) nsga2 \<Rightarrow> 'i list \<Rightarrow> bool \<times> ('o, 'v) nsga2" where
  "nsga2_setup self init_maps =
     (let self1 = (if length (eval_list self) = 1 then self\<lparr>hv_logging := False\<rparr> else self)
      in if length init_maps < 1 then (False, self1) else (True, self1))"

text \<open>
  \<^verbatim>\<open>set_ref_point\<close> returns its boolean, the lines it prints, and the object.
\<close>

definition set_ref_point ::
  "('o, 'v) nsga2 \<Rightarrow> 'v list \<Rightarrow> bool \<times> string list \<times> ('o, 'v) nsga2" where
  "set_ref_point self ref_point =
     (if \<not> hv_logging self then
        (True, [''Hypervolume logging is disabled'', ''Ref-point option is ignored''], self)
      else if length (eval_list self) < length ref_point then
        (False, [''Too few of ref point values''], self)
      else if length (eval_list self) > length ref_point then
        (False, [''Too much of ref point values''], self)
      else
        (True, [], self\<lparr>hv_refpoint := Some (map (\<lambda>v. v) ref_point)\<rparr>))"

subsection \<open>The collaborators of the evaluation pipeline\<close>

text \<open>
  A graph as the code reads it (\<^verbatim>\<open>nodes()\<close> of a networkx graph): its nodes and edges.
\<close>

record 'n digraph =
  nodes :: "'n list"
  edges :: "('n \<times> 'n) list"

text \<open>
  The resources of one processing element, as \<^verbatim>\<open>get_PE_resources\<close> returns them: a
  dictionary with the switch elements under \<^verbatim>\<open>"SE"\<close> (itself a dictionary whose values
  are collections of nodes) and the ALU node under \<^verbatim>\<open>"ALU"\<close>.
\<close>

record 'n pe_resources =
  SE :: "(nat \<times> 'n list) list"
  ALU :: 'n

text \<open>
  The hardware model \<^verbatim>\<open>PEArrayModel\<close> is not part of these sources; it is a parameter,
  the record of the methods the two files call.
\<close>

record 'n cgra =
  getSize :: "int \<times> int"
  getPregNumber :: int
  isSE :: "'n \<Rightarrow> bool"
  isALU :: "'n \<Rightarrow> bool"
  get_PE_resources :: "int \<times> int \<Rightarrow> 'n pe_resources"

text \<open>The application, likewise a parameter: its four sub-graphs.\<close>

record 'n application =
  getCompSubGraph :: "'n digraph"
  getConstSubGraph :: "'n digraph"
  getInputSubGraph :: "'n digraph"
  getOutputSubGraph :: "'n digraph"

text \<open>
  Modelled from the spec: the class \<^verbatim>\<open>Individual\<close> is missing from the sources. The
  spec gives a candidate a mutable routing graph, a mapping, an optional
  pipeline-register assignment, a settable routing cost, a settable fitness vector and a
  validity flag that is read by \<^verbatim>\<open>isValid\<close> and set by \<^verbatim>\<open>validate\<close>;
  \<^verbatim>\<open>saveEvaluatedData\<close> stores a value under a key.
\<close>

record ('n, 'm, 'p) individual =
  routed_graph :: "'n digraph"
  mapping :: 'm
  preg :: 'p
  routing_cost :: int
  valid :: bool
  fitness_values :: "int list"
  evaluated_data :: "(string \<times> int) list"

definition isValid :: "('n, 'm, 'p) individual \<Rightarrow> bool" where
  "isValid ind = valid ind"

definition validate :: "('n, 'm, 'p) individual \<Rightarrow> ('n, 'm, 'p) individual" where
  "validate ind = ind\<lparr>valid := True\<rparr>"

definition saveEvaluatedData ::
  "string \<Rightarrow> int \<Rightarrow> ('n, 'm, 'p) individual \<Rightarrow> ('n, 'm, 'p) individual" where
  "saveEvaluatedData key v ind =
     ind\<lparr>evaluated_data := (key, v) # filter (\<lambda>kv. fst kv \<noteq> key) (evaluated_data ind)\<rparr>"

text \<open>
  The router class (a \<^verbatim>\<open>RouterBase\<close>), a parameter. A routing stage takes the model, a
  sub-graph, the mapping and the routing graph, which it rewrites in place, and returns
  its cost: here it returns the cost and the rewritten graph. \<^verbatim>\<open>output_routing\<close> takes
  the pipeline-register assignment when the model has pipeline registers.
\<close>

record ('n, 'm, 'p) router =
  get_penalty_cost :: int
  comp_routing :: "'n cgra \<Rightarrow> 'n digraph \<Rightarrow> 'm \<Rightarrow> 'n digraph \<Rightarrow> int \<times> 'n digraph"
  const_routing :: "'n cgra \<Rightarrow> 'n digraph \<Rightarrow> 'm \<Rightarrow> 'n digraph \<Rightarrow> int \<times> 'n digraph"
  input_routing :: "'n cgra \<Rightarrow> 'n digraph \<Rightarrow> 'm \<Rightarrow> 'n digraph \<Rightarrow> int \<times> 'n digraph"
  output_routing ::
    "'n cgra \<Rightarrow> 'n digraph \<Rightarrow> 'm \<Rightarrow> 'n digraph \<Rightarrow> 'p option \<Rightarrow> int \<times> 'n digraph"
  clean_graph :: "'n digraph \<Rightarrow> 'n digraph"

text \<open>
  An objective class (an \<^verbatim>\<open>EvalBase\<close>): \<^verbatim>\<open>eval\<close> may raise, and may store data in the
  candidate.
\<close>

record ('n, 'm, 'p, 'sp) objective =
  obj_eval :: "'n cgra \<Rightarrow> 'n application \<Rightarrow> 'sp \<Rightarrow> ('n, 'm, 'p) individual
               \<Rightarrow> (string \<times> int) list \<Rightarrow> error + int \<times> ('n, 'm, 'p) individual"
  obj_isMinimize :: bool
  obj_name :: string

text \<open>
  The calls the pipeline makes on the router, the candidate and the objectives, in the
  order it makes them; \<open>Objective i\<close> is the \<^verbatim>\<open>eval\<close> of the objective at index \<open>i\<close>.
\<close>

datatype call =
  Comp_routing | Const_routing | Input_routing | Output_routing
  | Clean_graph | Validate | Objective nat

subsection \<open>The staged routing\<close>

text \<open>
  \<^verbatim>\<open>__doRouting\<close>. The graph \<open>g\<close> is the candidate's own routing graph, so each stage's
  rewriting of it is stored back into the candidate.
\<close>

definition doRouting ::
  "'n cgra \<Rightarrow> 'n application \<Rightarrow> ('n, 'm, 'p) router \<Rightarrow> ('n, 'm, 'p) individual
   \<Rightarrow> ('n, 'm, 'p) individual \<times> call list" where
  "doRouting CGRA app rt ind =
     (if isValid ind then (ind, [])
      else
        let penalty = get_penalty_cost rt;
            g = routed_graph ind;
            cost = 0;
            (c1, g1) = comp_routing rt CGRA (getCompSubGraph app) (mapping ind) g;
            cost = cost + c1
        in if cost > penalty then
             (ind\<lparr>routed_graph := g1, routing_cost := cost + penalty\<rparr>, [Comp_routing])
           else
             let (c2, g2) = const_routing rt CGRA (getConstSubGraph app) (mapping ind) g1;
                 cost = cost + c2
             in if cost > penalty then
                  (ind\<lparr>routed_graph := g2, routing_cost := cost + penalty\<rparr>,
                   [Comp_routing, Const_routing])
                else
                  let (c3, g3) = input_routing rt CGRA (getInputSubGraph app) (mapping ind) g2;
                      cost = cost + c3
                  in if cost > penalty then
                       (ind\<lparr>routed_graph := g3, routing_cost := cost + penalty\<rparr>,
                        [Comp_routing, Const_routing, Input_routing])
                     else
                       let (c4, g4) =
                             (if getPregNumber CGRA > 0 then
                                output_routing rt CGRA (getOutputSubGraph app) (mapping ind) g3
                                  (Some (preg ind))
                              else
                                output_routing rt CGRA (getOutputSubGraph app) (mapping ind) g3
                                  None);
                           cost = cost + c4
                       in if cost > penalty then
                            (ind\<lparr>routed_graph := g4, routing_cost := cost + penalty\<rparr>,
                             [Comp_routing, Const_routing, Input_routing, Output_routing])
                          else
                            (validate (ind\<lparr>routed_graph := clean_graph rt g4,
                                          routing_cost := cost\<rparr>),
                             [Comp_routing, Const_routing, Input_routing, Output_routing,
                              Clean_graph, Validate]))"

text \<open>
  The list comprehension of \<^verbatim>\<open>eval_objectives\<close>: every objective of the list is run
  on the candidate, in order, with its arguments; the first exception ends it.
\<close>

fun eval_each ::
  "'n cgra \<Rightarrow> 'n application \<Rightarrow> 'sp
   \<Rightarrow> (('n, 'm, 'p, 'sp) objective \<times> (string \<times> int) list) list \<Rightarrow> nat
   \<Rightarrow> ('n, 'm, 'p) individual
   \<Rightarrow> error + int list \<times> ('n, 'm, 'p) individual \<times> call list" where
  "eval_each CGRA app sim_params [] i ind = Inr ([], ind, [])"
| "eval_each CGRA app sim_params ((eval_cls, args) # rest) i ind =
     (case obj_eval eval_cls CGRA app sim_params ind args of
        Inl e \<Rightarrow> Inl e
      | Inr (v, ind1) \<Rightarrow>
          (case eval_each CGRA app sim_params rest (Suc i) ind1 of
             Inl e \<Rightarrow> Inl e
           | Inr (vs, ind2, calls) \<Rightarrow> Inr (v # vs, ind2, Objective i # calls)))"

text \<open>
  \<^verbatim>\<open>eval_objectives\<close> returns the list of objective values and the candidate; the
  calls made are returned with them.
\<close>

definition eval_objectives ::
  "('n, 'm, 'p, 'sp) objective list \<Rightarrow> (string \<times> int) list list
   \<Rightarrow> 'n cgra \<Rightarrow> 'n application \<Rightarrow> 'sp \<Rightarrow> ('n, 'm, 'p) router
   \<Rightarrow> ('n, 'm, 'p) individual
   \<Rightarrow> error + (int list \<times> ('n, 'm, 'p) individual) \<times> call list" where
  "eval_objectives evals eval_args CGRA app sim_params rt ind =
     (let (ind1, routing_calls) = doRouting CGRA app rt ind
      in case eval_each CGRA app sim_params (zip evals eval_args) 0 ind1 of
           Inl e \<Rightarrow> Inl e
         | Inr (vs, ind2, calls) \<Rightarrow> Inr ((vs, ind2), routing_calls @ calls))"

text \<open>
  The four stages as \<^verbatim>\<open>__doRouting\<close> calls them, each on the graph the stage before
  it left: the cost and the graph each call returns.
\<close>

definition comp_stage ::
  "'n cgra \<Rightarrow> 'n application \<Rightarrow> ('n, 'm, 'p) router \<Rightarrow> ('n, 'm, 'p) individual
   \<Rightarrow> int \<times> 'n digraph" where
  "comp_stage CGRA app rt ind =
     comp_routing rt CGRA (getCompSubGraph app) (mapping ind) (routed_graph ind)"

definition const_stage ::
  "'n cgra \<Rightarrow> 'n application \<Rightarrow> ('n, 'm, 'p) router \<Rightarrow> ('n, 'm, 'p) individual
   \<Rightarrow> int \<times> 'n digraph" where
  "const_stage CGRA app rt ind =
     const_routing rt CGRA (getConstSubGraph app) (mapping ind)
       (snd (comp_stage CGRA app rt ind))"

definition input_stage ::
  "'n cgra \<Rightarrow> 'n application \<Rightarrow> ('n, 'm, 'p) router \<Rightarrow> ('n, 'm, 'p) individual
   \<Rightarrow> int \<times> 'n digraph" where
  "input_stage CGRA app rt ind =
     input_routing rt CGRA (getInputSubGraph app) (mapping ind)
       (snd (const_stage CGRA app rt ind))"

definition output_stage ::
  "'n cgra \<Rightarrow> 'n application \<Rightarrow> ('n, 'm, 'p) router \<Rightarrow> ('n, 'm, 'p) individual
   \<Rightarrow> int \<times> 'n digraph" where
  "output_stage CGRA app rt ind =
     output_routing rt CGRA (getOutputSubGraph app) (mapping ind)
       (snd (input_stage CGRA app rt ind))
       (if getPregNumber CGRA > 0 then Some (preg ind) else None)"

subsection \<open>The mapping-width objective\<close>

text \<open>
  The test of the innermost loop of \<^verbatim>\<open>MapWidthEval.eval\<close>: the node is one of the
  switch elements of the processing element, or its ALU.
\<close>

definition in_PE :: "'n pe_resources \<Rightarrow> 'n \<Rightarrow> bool" where
  "in_PE rsc node \<longleftrightarrow> node \<in> set (concat (map snd (SE rsc))) \<or> node = ALU rsc"

text \<open>
  The loop over \<open>y\<close>: at the first row whose processing element holds the node, \<open>x\<close> is
  appended and the loop is left (\<^verbatim>\<open>break\<close>).
\<close>

fun y_loop :: "'n cgra \<Rightarrow> 'n \<Rightarrow> int \<Rightarrow> int list \<Rightarrow> int list \<Rightarrow> int list" where
  "y_loop CGRA node x [] x_coords = x_coords"
| "y_loop CGRA node x (y # ys) x_coords =
     (let rsc = get_PE_resources CGRA (x, y)
      in if in_PE rsc node then x_coords @ [x] else y_loop CGRA node x ys x_coords)"

text \<open>The loop over \<open>x\<close>; the \<^verbatim>\<open>break\<close> above does not leave it.\<close>

fun x_loop :: "'n cgra \<Rightarrow> 'n \<Rightarrow> int \<Rightarrow> int list \<Rightarrow> int list \<Rightarrow> int list" where
  "x_loop CGRA node height [] x_coords = x_coords"
| "x_loop CGRA node height (x # xs) x_coords =
     x_loop CGRA node height xs (y_loop CGRA node x [0..height - 1] x_coords)"

text \<open>The loop over the nodes.\<close>

fun node_loop :: "'n cgra \<Rightarrow> int \<Rightarrow> int \<Rightarrow> 'n list \<Rightarrow> int list \<Rightarrow> int list" where
  "node_loop CGRA width height [] x_coords = x_coords"
| "node_loop CGRA width height (node # rest) x_coords =
     node_loop CGRA width height rest (x_loop CGRA node height [0..width - 1] x_coords)"

text \<open>Python's \<^verbatim>\<open>max\<close> of a list raises \<^verbatim>\<open>ValueError\<close> on the empty list.\<close>

fun py_max :: "int list \<Rightarrow> error + int" where
  "py_max [] = Inl ValueError"
| "py_max (x # xs) = Inr (fold max xs x)"

definition MapWidthEval_eval ::
  "'n cgra \<Rightarrow> 'n application \<Rightarrow> 'sp \<Rightarrow> ('n, 'm, 'p) individual
   \<Rightarrow> error + int \<times> ('n, 'm, 'p) individual" where
  "MapWidthEval_eval CGRA app sim_params ind =
     (let x_coords = [];
          SEs = filter (isSE CGRA) (nodes (routed_graph ind));
          ALUs = filter (isALU CGRA) (nodes (routed_graph ind));
          (width, height) = getSize CGRA;
          x_coords = node_loop CGRA width height (SEs @ ALUs) x_coords
      in case py_max x_coords of
           Inl e \<Rightarrow> Inl e
         | Inr m \<Rightarrow>
             (let map_width = m + 1
              in Inr (map_width, saveEvaluatedData ''map_width'' map_width ind)))"

definition MapWidthEval_isMinimize :: bool where
  "MapWidthEval_isMinimize = True"

definition MapWidthEval_name :: string where
  "MapWidthEval_name = ''Mapping_Width''"

text \<open>
  The class as an objective of the optimiser. \<^verbatim>\<open>eval\<close> is called with the configured
  arguments as keyword arguments and takes none: any argument raises \<^verbatim>\<open>TypeError\<close>.
\<close>

definition MapWidthEval :: "('n, 'm, 'p, 'sp) objective" where
  "MapWidthEval =
     \<lparr>obj_eval = (\<lambda>CGRA app sim_params ind args.
                   if args = [] then MapWidthEval_eval CGRA app sim_params ind
                   else Inl TypeError),
      obj_isMinimize = MapWidthEval_isMinimize,
      obj_name = MapWidthEval_name\<rparr>"

text \<open>
  The columns that the claims about the objective speak of: a column \<open>x\<close> of the grid
  is occupied when some node of the routed graph that the model classifies as a switch
  element or an ALU is among the resources of a processing element \<open>(x, y)\<close> of the grid.
\<close>

definition occupied_columns :: "'n cgra \<Rightarrow> ('n, 'm, 'p) individual \<Rightarrow> int set" where
  "occupied_columns CGRA ind =
     {x. 0 \<le> x \<and> x < fst (getSize CGRA) \<and>
         (\<exists>node y. node \<in> set (nodes (routed_graph ind)) \<and> (isSE CGRA node \<or> isALU CGRA node)
            \<and> 0 \<le> y \<and> y < snd (getSize CGRA) \<and> in_PE (get_PE_resources CGRA (x, y)) node)}"

text \<open>The list \<^verbatim>\<open>x_coords\<close> as the three loops leave it.\<close>

definition x_coords_of :: "'n cgra \<Rightarrow> ('n, 'm, 'p) individual \<Rightarrow> int list" where
  "x_coords_of CGRA ind =
     node_loop CGRA (fst (getSize CGRA)) (snd (getSize CGRA))
       (filter (isSE CGRA) (nodes (routed_graph ind)) @ filter (isALU CGRA) (nodes (routed_graph ind))) []"

subsection \<open>A small instance\<close>

text \<open>
  A 2 x 2 array without pipeline registers: the processing element at \<open>(x, y)\<close> has the
  ALU \<open>2x + y\<close> and one switch element \<open>10 + 2x + y\<close>. The router \<open>ex_router\<close> has the
  penalty 100 and reads the four stage costs off the mapping, which for it is a
  quadruple of costs; the computation stage adds the ALU 0 to the routing graph.
\<close>

definition ex_cgra :: "nat cgra" where
  "ex_cgra =
     \<lparr>getSize = (2, 2), getPregNumber = 0,
      isSE = (\<lambda>n. 10 \<le> n \<and> n < 14), isALU = (\<lambda>n. n < 4),
      get_PE_resources = (\<lambda>(x, y). \<lparr>SE = [(0, [10 + nat (2 * x + y)])], ALU = nat (2 * x + y)\<rparr>)\<rparr>"

definition ex_graph :: "nat digraph" where
  "ex_graph = \<lparr>nodes = [], edges = []\<rparr>"

definition ex_app :: "nat application" where
  "ex_app = \<lparr>getCompSubGraph = ex_graph, getConstSubGraph = ex_graph,
             getInputSubGraph = ex_graph, getOutputSubGraph = ex_graph\<rparr>"

definition ex_router :: "(nat, int \<times> int \<times> int \<times> int, unit) router" where
  "ex_router =
     \<lparr>get_penalty_cost = 100,
      comp_routing = (\<lambda>CGRA sub (a, b, c, d) g. (a, g\<lparr>nodes := 0 # nodes g\<rparr>)),
      const_routing = (\<lambda>CGRA sub (a, b, c, d) g. (b, g)),
      input_routing = (\<lambda>CGRA sub (a, b, c, d) g. (c, g)),
      output_routing = (\<lambda>CGRA sub (a, b, c, d) g pr. (d, g)),
      clean_graph = (\<lambda>g. g)\<rparr>"

definition ex_ind :: "int \<times> int \<times> int \<times> int \<Rightarrow> (nat, int \<times> int \<times> int \<times> int, unit) individual" where
  "ex_ind costs =
     \<lparr>routed_graph = ex_graph, mapping = costs, preg = (), routing_cost = 0, valid = False,
      fitness_values = [], evaluated_data = []\<rparr>"

text \<open>
  A candidate that is already valid: routed onto the ALU 2 and the switch element 11,
  with the fitness vector \<open>[5]\<close> stored.
\<close>

definition ex_valid_ind :: "(nat, int \<times> int \<times> int \<times> int, unit) individual" where
  "ex_valid_ind =
     \<lparr>routed_graph = \<lparr>nodes = [2, 11], edges = [(2, 11)]\<rparr>, mapping = (1, 1, 1, 1), preg = (),
      routing_cost = 4, valid = True, fitness_values = [5], evaluated_data = []\<rparr>"

subsection \<open>The generational loop\<close>

text \<open>
  The parameters of the configuration that \<^verbatim>\<open>runOptimization\<close> reads, as Python
  integers. The crossover and mutation probabilities are used by the variation
  operator only and belong to it.
\<close>

record params =
  initial_population_size :: int
  offspring_size :: int
  select_size :: int
  random_population_size :: int
  maximum_generation :: int
  maximum_stall :: int

text \<open>
  The toolbox: the operations of the evolutionary library and of the placer that the
  loop calls. They are parameters. The random choices they make are drawn from a
  state \<open>'w\<close> that is passed through them.
  \<^item> \<open>tb_individual\<close>: \<^verbatim>\<open>toolbox.individual()\<close>, a new candidate from the initial mappings;
  \<^item> \<open>tb_make_random_mappings\<close> and \<open>tb_random_individual\<close>: the placer's random
    mappings and \<^verbatim>\<open>toolbox.random_individual\<close>;
  \<^item> \<open>tb_varOr\<close>: \<^verbatim>\<open>algorithms.varOr\<close> on the population with the offspring size;
  \<^item> \<open>tb_evaluate\<close>: \<^verbatim>\<open>toolbox.evaluate\<close>, which is \<^verbatim>\<open>eval_objectives\<close> with the
    objectives, model, application and router fixed;
  \<^item> \<open>tb_select\<close>: \<^verbatim>\<open>tools.selNSGA2\<close>;
  \<^item> \<open>tb_hof_update\<close>: \<^verbatim>\<open>ParetoFront.update\<close>, from the archive and a population to
    the new archive.
\<close>

record ('n, 'm, 'p, 'w) toolbox =
  tb_individual :: "'w \<Rightarrow> ('n, 'm, 'p) individual \<times> 'w"
  tb_make_random_mappings :: "'w \<Rightarrow> 'm list \<times> 'w"
  tb_random_individual :: "'m list \<Rightarrow> 'w \<Rightarrow> ('n, 'm, 'p) individual \<times> 'w"
  tb_varOr :: "'w \<Rightarrow> ('n, 'm, 'p) individual list \<Rightarrow> int \<Rightarrow> ('n, 'm, 'p) individual list \<times> 'w"
  tb_evaluate :: "('n, 'm, 'p) individual \<Rightarrow> error + int list \<times> ('n, 'm, 'p) individual"
  tb_select :: "('n, 'm, 'p) individual list \<Rightarrow> int \<Rightarrow> ('n, 'm, 'p) individual list"
  tb_hof_update ::
    "('n, 'm, 'p) individual list \<Rightarrow> ('n, 'm, 'p) individual list \<Rightarrow> ('n, 'm, 'p) individual list"

text \<open>
  \<^verbatim>\<open>[f() for i in range(n)]\<close>, as in \<^verbatim>\<open>tools.initRepeat\<close> and in
  \<^verbatim>\<open>random_population\<close>: \<open>k\<close> calls, in order.
\<close>

fun repeat_call :: "('w \<Rightarrow> 'a \<times> 'w) \<Rightarrow> nat \<Rightarrow> 'w \<Rightarrow> 'a list \<times> 'w" where
  "repeat_call f 0 w = ([], w)"
| "repeat_call f (Suc k) w =
     (let (x, w1) = f w;
          (xs, w2) = repeat_call f k w1
      in (x # xs, w2))"

definition population ::
  "('n, 'm, 'p, 'w) toolbox \<Rightarrow> 'w \<Rightarrow> int \<Rightarrow> ('n, 'm, 'p) individual list \<times> 'w" where
  "population tb w n = repeat_call (tb_individual tb) (nat n) w"

definition random_population ::
  "('n, 'm, 'p, 'w) toolbox \<Rightarrow> 'w \<Rightarrow> int \<Rightarrow> ('n, 'm, 'p) individual list \<times> 'w" where
  "random_population tb w n =
     (let (random_mappings, w1) = tb_make_random_mappings tb w
      in repeat_call (tb_random_individual tb random_mappings) (nat n) w1)"

text \<open>\<^verbatim>\<open>toolbox.map(toolbox.evaluate, xs)\<close>: the results in the order of \<open>xs\<close>.\<close>

fun map_evaluate ::
  "('a \<Rightarrow> error + 'b) \<Rightarrow> 'a list \<Rightarrow> error + 'b list" where
  "map_evaluate f [] = Inr []"
| "map_evaluate f (x # xs) =
     (case f x of
        Inl e \<Rightarrow> Inl e
      | Inr y \<Rightarrow> (case map_evaluate f xs of Inl e \<Rightarrow> Inl e | Inr ys \<Rightarrow> Inr (y # ys)))"

text \<open>
  \<^verbatim>\<open>fitnesses, xs = (list(l) for l in zip(*toolbox.map(toolbox.evaluate, xs)))\<close> followed
  by the loop that stores each fitness in its candidate. On an empty list the \<^verbatim>\<open>zip\<close>
  yields nothing and the unpacking into two names raises \<^verbatim>\<open>ValueError\<close>.
\<close>

definition evaluate_all ::
  "('n, 'm, 'p, 'w) toolbox \<Rightarrow> ('n, 'm, 'p) individual list
   \<Rightarrow> error + ('n, 'm, 'p) individual list" where
  "evaluate_all tb xs =
     (case map_evaluate (tb_evaluate tb) xs of
        Inl e \<Rightarrow> Inl e
      | Inr results \<Rightarrow>
          if results = [] then Inl ValueError
          else
            let fitnesses = map fst results;
                xs1 = map snd results
            in Inr (map (\<lambda>(ind, fit). ind\<lparr>fitness_values := fit\<rparr>) (zip xs1 fitnesses)))"

text \<open>The variables of the loop.\<close>

record ('n, 'm, 'p, 'w) run_state =
  pop :: "('n, 'm, 'p) individual list"
  hof :: "('n, 'm, 'p) individual list"
  prev_hof :: "('n, 'm, 'p) individual list"
  gen_count :: int
  stall_count :: int
  fitness_hof_log :: "int list list list"
  world :: 'w

text \<open>
  One pass through the body of the \<^verbatim>\<open>while\<close> loop. After the random candidates are
  appended, the minimum and maximum of the archive's fitness vectors are computed for
  the display (\<^verbatim>\<open>stats.compile(hof)\<close>): the minimum of an empty collection raises
  \<^verbatim>\<open>ValueError\<close>, so an empty archive ends the generation with that exception. The
  progress display and the log file themselves are left out; they change none of the
  variables of the loop.
\<close>

definition generation ::
  "('n, 'm, 'p, 'w) toolbox \<Rightarrow> params \<Rightarrow> ('n, 'm, 'p, 'w) run_state
   \<Rightarrow> error + ('n, 'm, 'p, 'w) run_state" where
  "generation tb ps s =
     (let gen_count1 = gen_count s + 1;
          (offspring, w1) = tb_varOr tb (world s) (pop s) (offspring_size ps)
      in case evaluate_all tb offspring of
           Inl e \<Rightarrow> Inl e
         | Inr offspring \<Rightarrow>
             let pop1 = tb_select tb (pop s @ offspring) (select_size ps);
                 hof1 = tb_hof_update tb (hof s) pop1;
                 stall_count1 =
                   (if length hof1 = length (prev_hof s) then
                      if set (map fitness_values hof1) = set (map fitness_values (prev_hof s))
                      then stall_count s + 1
                      else 0
                    else 0);
                 prev_hof1 = hof1;
                 log1 = fitness_hof_log s @ [map fitness_values (filter isValid hof1)];
                 (rnd_ind, w2) = random_population tb w1 (random_population_size ps)
             in case evaluate_all tb rnd_ind of
                  Inl e \<Rightarrow> Inl e
                | Inr rnd_ind \<Rightarrow>
                    if hof1 = [] then Inl ValueError
                    else
                      Inr \<lparr>pop = pop1 @ rnd_ind, hof = hof1, prev_hof = prev_hof1,
                           gen_count = gen_count1, stall_count = stall_count1,
                           fitness_hof_log = log1, world = w2\<rparr>)"

text \<open>The \<^verbatim>\<open>while\<close> loop. An exception of the body ends it.\<close>

function evolve ::
  "('n, 'm, 'p, 'w) toolbox \<Rightarrow> params \<Rightarrow> ('n, 'm, 'p, 'w) run_state
   \<Rightarrow> error + ('n, 'm, 'p, 'w) run_state" where
  "evolve tb ps s =
     (if gen_count s < maximum_generation ps \<and> stall_count s < maximum_stall ps then
        (case generation tb ps s of
           Inl e \<Rightarrow> Inl e
         | Inr s1 \<Rightarrow> evolve tb ps s1)
      else Inr s)"
  by pat_completeness auto
termination
proof (relation "measure (\<lambda>(tb, ps, s). nat (maximum_generation ps - gen_count s))")
  show "wf (measure (\<lambda>(tb, ps, s). nat (maximum_generation ps - gen_count s)))"
    by simp
next
  fix tb :: "('n, 'm, 'p, 'w) toolbox" and ps s s1
  assume cond: "gen_count s < maximum_generation ps \<and> stall_count s < maximum_stall ps"
    and step: "generation tb ps s = Inr s1"
  from step have "gen_count s1 = gen_count s + 1"
    by (auto simp: generation_def Let_def split: prod.splits sum.splits if_splits)
  with cond show "((tb, ps, s1), (tb, ps, s))
      \<in> measure (\<lambda>(tb, ps, s). nat (maximum_generation ps - gen_count s))"
    by simp
qed

text \<open>The loop body applied \<open>k\<close> times, whatever the counters are.\<close>

fun generations ::
  "('n, 'm, 'p, 'w) toolbox \<Rightarrow> params \<Rightarrow> nat \<Rightarrow> ('n, 'm, 'p, 'w) run_state
   \<Rightarrow> error + ('n, 'm, 'p, 'w) run_state" where
  "generations tb ps 0 s = Inr s"
| "generations tb ps (Suc k) s =
     (case generation tb ps s of
        Inl e \<Rightarrow> Inl e
      | Inr s1 \<Rightarrow> generations tb ps k s1)"

text \<open>
  The hypervolume class of the optional dependency, a parameter: the reference point it
  derives from a set of points (\<^verbatim>\<open>refpoint(offset=0.1)\<close>) and the hypervolume of a set
  of points against a reference point.
\<close>

record ('v, 'h) hypervolume =
  hv_refpoint_of :: "int list list \<Rightarrow> 'v list"
  hv_compute :: "int list list \<Rightarrow> 'v list \<Rightarrow> 'h"

text \<open>
  The end of \<^verbatim>\<open>runOptimization\<close>, after the loop: the archive is filtered to the valid
  candidates and returned with the hypervolume series, or with \<open>None\<close>. The object is
  returned too, since the reference point may be stored in it.
\<close>

definition finish ::
  "('o, 'v) nsga2 \<Rightarrow> ('v, 'h::zero) hypervolume \<Rightarrow> ('n, 'm, 'p, 'w) run_state
   \<Rightarrow> (('n, 'm, 'p) individual list \<times> 'h list option) \<times> ('o, 'v) nsga2" where
  "finish self hv s =
     (let hof1 = filter isValid (hof s)
      in if hv_logging self \<and> length hof1 > 0 then
           let points = concat (fitness_hof_log s);
               refpoint = (case hv_refpoint self of
                             None \<Rightarrow> hv_refpoint_of hv points
                           | Some r \<Rightarrow> r);
               self1 = self\<lparr>hv_refpoint := Some refpoint\<rparr>;
               hypervolume_log =
                 map (\<lambda>fit. if length fit > 0 then hv_compute hv fit refpoint else 0)
                   (fitness_hof_log s)
           in ((hof1, Some hypervolume_log), self1)
         else ((hof1, None), self))"

text \<open>
  \<^verbatim>\<open>runOptimization\<close>: the first population is generated and evaluated, the loop runs,
  and the result is built.
\<close>

definition runOptimization ::
  "('o, 'v) nsga2 \<Rightarrow> ('v, 'h::zero) hypervolume \<Rightarrow> ('n, 'm, 'p, 'w) toolbox \<Rightarrow> params \<Rightarrow> 'w
   \<Rightarrow> error + (('n, 'm, 'p) individual list \<times> 'h list option) \<times> ('o, 'v) nsga2" where
  "runOptimization self hv tb ps w =
     (let (pop0, w1) = population tb w (initial_population_size ps)
      in case evaluate_all tb pop0 of
           Inl e \<Rightarrow> Inl e
         | Inr pop1 \<Rightarrow>
             (case evolve tb ps
                     \<lparr>pop = pop1, hof = [], prev_hof = [], gen_count = 0, stall_count = 0,
                      fitness_hof_log = [], world = w1\<rparr> of
                Inl e \<Rightarrow> Inl e
              | Inr s \<Rightarrow> Inr (finish self hv s)))"

subsection \<open>A small run\<close>

text \<open>
  An archive in the manner of the library's Pareto front, for objectives that are all
  minimised: a candidate enters unless an archived one dominates it or is equal to it
  with an equal fitness; the archived candidates it dominates leave.
\<close>

definition ex_dominates :: "int list \<Rightarrow> int list \<Rightarrow> bool" where
  "ex_dominates a b \<longleftrightarrow> list_all2 (\<le>) a b \<and> a \<noteq> b"

definition ex_hof_insert ::
  "('n, 'm, 'p) individual list \<Rightarrow> ('n, 'm, 'p) individual \<Rightarrow> ('n, 'm, 'p) individual list" where
  "ex_hof_insert h ind =
     (if list_ex (\<lambda>hofer. ex_dominates (fitness_values hofer) (fitness_values ind)) h then h
      else
        let h1 = filter (\<lambda>hofer. \<not> ex_dominates (fitness_values ind) (fitness_values hofer)) h
        in if list_ex (\<lambda>hofer. fitness_values hofer = fitness_values ind \<and> hofer = ind) h1
           then h1 else h1 @ [ind])"

definition ex_hof_update ::
  "('n, 'm, 'p) individual list \<Rightarrow> ('n, 'm, 'p) individual list \<Rightarrow> ('n, 'm, 'p) individual list" where
  "ex_hof_update h p = foldl ex_hof_insert h p"

text \<open>
  The toolbox of the run: new candidates have the mapping (1, 1, 1, 1), random ones the
  mapping (2, 2, 2, 2); the variation copies the first candidate of the population; the
  selection keeps the last candidates of the list; candidates are evaluated by
  \<open>eval_objectives\<close> with the mapping-width objective on the instance above.
\<close>

definition ex_toolbox :: "(nat, int \<times> int \<times> int \<times> int, unit, unit) toolbox" where
  "ex_toolbox =
     \<lparr>tb_individual = (\<lambda>w. (ex_ind (1, 1, 1, 1), w)),
      tb_make_random_mappings = (\<lambda>w. ([(2, 2, 2, 2)], w)),
      tb_random_individual = (\<lambda>ms w. (case ms of [] \<Rightarrow> ex_ind (1, 1, 1, 1) | m # _ \<Rightarrow> ex_ind m, w)),
      tb_varOr = (\<lambda>w xs n. (case xs of [] \<Rightarrow> [] | x # _ \<Rightarrow> replicate (nat n) x, w)),
      tb_evaluate =
        (\<lambda>ind. case eval_objectives [MapWidthEval] [[]] ex_cgra ex_app () ex_router ind of
                  Inl e \<Rightarrow> Inl e
                | Inr (r, calls) \<Rightarrow> Inr r),
      tb_select = (\<lambda>xs k. take (nat k) (rev xs)),
      tb_hof_update = ex_hof_update\<rparr>"

definition ex_params :: params where
  "ex_params =
     \<lparr>initial_population_size = 1, offspring_size = 1, select_size = 2,
      random_population_size = 1, maximum_generation = 100, maximum_stall = 3\<rparr>"

text \<open>The candidate with the costs \<open>(c, c, c, c)\<close> once it is evaluated.\<close>

definition ex_evaluated :: "int \<Rightarrow> (nat, int \<times> int \<times> int \<times> int, unit) individual" where
  "ex_evaluated c =
     \<lparr>routed_graph = \<lparr>nodes = [0], edges = []\<rparr>, mapping = (c, c, c, c), preg = (),
      routing_cost = 4 * c, valid = True, fitness_values = [1],
      evaluated_data = [(''map_width'', 1)]\<rparr>"

text \<open>A state of the run whose randomness is trivial.\<close>

definition ex_state ::
  "(nat, int \<times> int \<times> int \<times> int, unit) individual list
   \<Rightarrow> (nat, int \<times> int \<times> int \<times> int, unit) individual list
   \<Rightarrow> int \<Rightarrow> int \<Rightarrow> int list list list
   \<Rightarrow> (nat, int \<times> int \<times> int \<times> int, unit, unit) run_state" where
  "ex_state p h g c lg =
     \<lparr>pop = p, hof = h, prev_hof = h, gen_count = g, stall_count = c,
      fitness_hof_log = lg, world = ()\<rparr>"

text \<open>
  A hypervolume class for the run, and an optimiser object with a single objective, as
  \<^verbatim>\<open>__init__\<close> leaves it when the hypervolume class can be imported.
\<close>

definition ex_hypervolume :: "(int, int) hypervolume" where
  "ex_hypervolume = \<lparr>hv_refpoint_of = (\<lambda>points. []), hv_compute = (\<lambda>points r. 0)\<rparr>"

definition ex_nsga2 :: "(string, int) nsga2" where
  "ex_nsga2 = \<lparr>eval_list = [''Mapping_Width''], hv_logging = True, hv_refpoint = None\<rparr>"

section \<open>Properties\<close>

subsection \<open>Setting the reference point\<close>

lemma set_ref_point_wrong_length:
  assumes "hv_logging self" and "length ref_point \<noteq> length (eval_list self)"
  shows "fst (set_ref_point self ref_point) = False"
    and "snd (snd (set_ref_point self ref_point)) = self"
  using assms by (auto simp: set_ref_point_def)

lemma set_ref_point_right_length:
  assumes "hv_logging self" and "length ref_point = length (eval_list self)"
  shows "set_ref_point self ref_point = (True, [], self\<lparr>hv_refpoint := Some ref_point\<rparr>)"
  using assms by (simp add: set_ref_point_def)

text \<open>
  C1. With quality tracking enabled, a vector of the wrong length is rejected and the
  stored reference point is kept, and a vector of the right length is stored as it is
  (the two lemmas above). The reported direction is inverted: with two objectives and
  three values, one too many, the line printed is "Too few of ref point values".
\<close>

theorem set_ref_point_too_many_says_too_few:
  "set_ref_point \<lparr>eval_list = [''a'', ''b''], hv_logging = True, hv_refpoint = Some [7, 8 :: int]\<rparr>
                 [1, 2, 3]
   = (False, [''Too few of ref point values''],
      \<lparr>eval_list = [''a'', ''b''], hv_logging = True, hv_refpoint = Some [7, 8]\<rparr>)"
  by (simp add: set_ref_point_def)

subsection \<open>Validity and cost after the staged routing\<close>

lemmas stage_defs = comp_stage_def const_stage_def input_stage_def output_stage_def

lemma ex_stage_simps:
  "fst (comp_stage ex_cgra ex_app ex_router (ex_ind (a, b, c, d))) = a"
  "fst (const_stage ex_cgra ex_app ex_router (ex_ind (a, b, c, d))) = b"
  "fst (input_stage ex_cgra ex_app ex_router (ex_ind (a, b, c, d))) = c"
  "fst (output_stage ex_cgra ex_app ex_router (ex_ind (a, b, c, d))) = d"
  by (simp_all add: stage_defs ex_router_def ex_ind_def)

lemma ex_ind_not_valid: "\<not> isValid (ex_ind costs)"
  by (simp add: isValid_def ex_ind_def)

lemma ex_router_penalty: "100 = get_penalty_cost ex_router"
  by (simp add: ex_router_def)

text \<open>
  C4. A candidate that was not valid when the routing began is valid afterwards exactly
  when the accumulated cost is at most the router's penalty after each of the four
  stages (computation, constant, input, output). Then its routing cost is the total of
  the four stages, the router's graph cleanup has been applied to its routing graph and
  \<^verbatim>\<open>validate\<close> has been called on it. When the check after a stage fails, the routing
  cost is the total accumulated up to that stage plus the penalty, and the candidate is
  still invalid.
\<close>

theorem doRouting_valid_iff:
  assumes "\<not> isValid ind"
    and "P = get_penalty_cost rt"
    and "t1 = fst (comp_stage CGRA app rt ind)"
    and "t2 = t1 + fst (const_stage CGRA app rt ind)"
    and "t3 = t2 + fst (input_stage CGRA app rt ind)"
    and "t4 = t3 + fst (output_stage CGRA app rt ind)"
    and "doRouting CGRA app rt ind = (ind', calls)"
  shows "(isValid ind' \<longleftrightarrow> t1 \<le> P \<and> t2 \<le> P \<and> t3 \<le> P \<and> t4 \<le> P)
       \<and> (isValid ind' \<longrightarrow>
            routing_cost ind' = t4
          \<and> routed_graph ind' = clean_graph rt (snd (output_stage CGRA app rt ind))
          \<and> calls = [Comp_routing, Const_routing, Input_routing, Output_routing, Clean_graph, Validate])
       \<and> (t1 > P \<longrightarrow> routing_cost ind' = t1 + P \<and> \<not> isValid ind')
       \<and> (t1 \<le> P \<and> t2 > P \<longrightarrow> routing_cost ind' = t2 + P \<and> \<not> isValid ind')
       \<and> (t1 \<le> P \<and> t2 \<le> P \<and> t3 > P \<longrightarrow> routing_cost ind' = t3 + P \<and> \<not> isValid ind')
       \<and> (t1 \<le> P \<and> t2 \<le> P \<and> t3 \<le> P \<and> t4 > P \<longrightarrow> routing_cost ind' = t4 + P \<and> \<not> isValid ind')"
  using assms
  by (auto simp: doRouting_def stage_defs Let_def isValid_def validate_def split: prod.splits if_splits)

text \<open>
  The quadruple of costs (10, 20, 30, 40) stays within the penalty 100 at every stage;
  (10, 20, 30, 41) exceeds it after the output stage.
\<close>

theorem doRouting_valid_iff_witness:
  "isValid (fst (doRouting ex_cgra ex_app ex_router (ex_ind (10, 20, 30, 40))))
   \<and> routing_cost (fst (doRouting ex_cgra ex_app ex_router (ex_ind (10, 20, 30, 40)))) = 100
   \<and> \<not> isValid (fst (doRouting ex_cgra ex_app ex_router (ex_ind (10, 20, 30, 41))))
   \<and> routing_cost (fst (doRouting ex_cgra ex_app ex_router (ex_ind (10, 20, 30, 41)))) = 201"
proof -
  have t1: "10 = fst (comp_stage ex_cgra ex_app ex_router (ex_ind (10, 20, 30, d)))" for d
    by (simp add: ex_stage_simps)
  have t2: "30 = 10 + fst (const_stage ex_cgra ex_app ex_router (ex_ind (10, 20, 30, d)))" for d
    by (simp add: ex_stage_simps)
  have t3: "60 = 30 + fst (input_stage ex_cgra ex_app ex_router (ex_ind (10, 20, 30, d)))" for d
    by (simp add: ex_stage_simps)
  have t4: "100 = 60 + fst (output_stage ex_cgra ex_app ex_router (ex_ind (10, 20, 30, 40)))"
    by (simp add: ex_stage_simps)
  have t4': "101 = 60 + fst (output_stage ex_cgra ex_app ex_router (ex_ind (10, 20, 30, 41)))"
    by (simp add: ex_stage_simps)
  note ok = doRouting_valid_iff [OF ex_ind_not_valid ex_router_penalty t1 t2 t3 t4 surjective_pairing]
  note over = doRouting_valid_iff [OF ex_ind_not_valid ex_router_penalty t1 t2 t3 t4' surjective_pairing]
  from ok over show ?thesis by simp
qed

text \<open>
  C5. When the cost of the computation routing alone exceeds the penalty, the
  computation routing is the only call made on the router (the constant, input and
  output stages are not invoked), and the routing cost is the computation cost plus
  the penalty. The candidate is one the routing is run on, that is, not already valid.
\<close>

theorem doRouting_comp_over_penalty:
  assumes "\<not> isValid ind"
    and "fst (comp_stage CGRA app rt ind) > get_penalty_cost rt"
  shows "snd (doRouting CGRA app rt ind) = [Comp_routing]
       \<and> routing_cost (fst (doRouting CGRA app rt ind))
           = fst (comp_stage CGRA app rt ind) + get_penalty_cost rt
       \<and> \<not> isValid (fst (doRouting CGRA app rt ind))"
  using assms
  by (auto simp: doRouting_def stage_defs Let_def isValid_def split: prod.splits)

theorem doRouting_comp_over_penalty_witness:
  "snd (doRouting ex_cgra ex_app ex_router (ex_ind (101, 1, 1, 1))) = [Comp_routing]
   \<and> routing_cost (fst (doRouting ex_cgra ex_app ex_router (ex_ind (101, 1, 1, 1)))) = 201"
proof -
  have over: "get_penalty_cost ex_router
                < fst (comp_stage ex_cgra ex_app ex_router (ex_ind (101, 1, 1, 1)))"
    by (simp add: ex_stage_simps) (simp add: ex_router_def)
  from doRouting_comp_over_penalty [OF ex_ind_not_valid over] show ?thesis
    by (simp add: ex_stage_simps) (simp add: ex_router_def)
qed

subsection \<open>Evaluation of a candidate that is already valid\<close>

lemma doRouting_valid_skips: "isValid ind \<Longrightarrow> doRouting CGRA app rt ind = (ind, [])"
  by (simp add: doRouting_def)

lemma eval_each_calls:
  "eval_each CGRA app sim_params ps i ind = Inr (vs, ind2, calls)
   \<Longrightarrow> calls = map Objective [i..<i + length ps] \<and> length vs = length ps"
proof (induction ps arbitrary: i ind vs ind2 calls)
  case Nil
  then show ?case by simp
next
  case (Cons p ps)
  obtain eval_cls args where p: "p = (eval_cls, args)" by (cases p)
  from Cons.prems p obtain v ind1 vs' calls' where
    first: "obj_eval eval_cls CGRA app sim_params ind args = Inr (v, ind1)" and
    rest: "eval_each CGRA app sim_params ps (Suc i) ind1 = Inr (vs', ind2, calls')" and
    res: "vs = v # vs'" "calls = Objective i # calls'"
    by (auto split: sum.splits)
  from Cons.IH [OF rest] have c: "calls' = map Objective [Suc i..<Suc i + length ps]"
    and l: "length vs' = length ps" by blast+
  have "i < i + length (p # ps)" by simp
  then have "[i..<i + length (p # ps)] = i # [Suc i..<i + length (p # ps)]"
    by (rule upt_conv_Cons)
  moreover have "i + length (p # ps) = Suc i + length ps" by simp
  ultimately have e: "[i..<i + length (p # ps)] = i # [Suc i..<Suc i + length ps]"
    by (simp only:)
  from res c have "calls = map Objective (i # [Suc i..<Suc i + length ps])"
    by (simp only: list.map)
  then have "calls = map Objective [i..<i + length (p # ps)]"
    by (simp only: e)
  moreover from res l have "length vs = length (p # ps)"
    by (simp only: list.size length_Cons)
  ultimately show ?case by (rule conjI)
qed

lemma upto_0_1: "[0..1::int] = [0, 1]"
  by (simp add: upto.simps)

lemma ex_MapWidthEval_eval:
  "MapWidthEval_eval ex_cgra ex_app () ex_valid_ind =
     Inr (2, saveEvaluatedData ''map_width'' 2 ex_valid_ind)"
  by (simp add: MapWidthEval_eval_def ex_cgra_def ex_valid_ind_def upto_0_1 in_PE_def Let_def)


text \<open>
  C6, as the code has it. For a candidate that is already valid the routing is skipped:
  no call is made on the router and the candidate (routing cost, routing graph,
  validity) is returned as it was. The objectives are nevertheless all run again, in
  order, and the fitness vector returned is the one they compute; the fitness stored in
  the candidate is not read.
\<close>

theorem eval_objectives_valid_candidate:
  assumes "isValid ind"
  shows "doRouting CGRA app rt ind = (ind, [])
       \<and> eval_objectives evals eval_args CGRA app sim_params rt ind =
           (case eval_each CGRA app sim_params (zip evals eval_args) 0 ind of
              Inl e \<Rightarrow> Inl e
            | Inr (vs, ind2, calls) \<Rightarrow> Inr ((vs, ind2), calls))
       \<and> (\<forall>vs ind2 calls.
             eval_objectives evals eval_args CGRA app sim_params rt ind = Inr ((vs, ind2), calls)
             \<longrightarrow> calls = map Objective [0..<length (zip evals eval_args)])"
proof -
  have skip: "doRouting CGRA app rt ind = (ind, [])"
    using assms by (rule doRouting_valid_skips)
  have ev: "eval_objectives evals eval_args CGRA app sim_params rt ind =
           (case eval_each CGRA app sim_params (zip evals eval_args) 0 ind of
              Inl e \<Rightarrow> Inl e
            | Inr (vs, ind2, calls) \<Rightarrow> Inr ((vs, ind2), calls))"
    by (simp add: eval_objectives_def skip split: sum.splits)
  have "calls = map Objective [0..<length (zip evals eval_args)]"
    if "eval_objectives evals eval_args CGRA app sim_params rt ind = Inr ((vs, ind2), calls)"
    for vs ind2 calls
  proof -
    from that ev have "eval_each CGRA app sim_params (zip evals eval_args) 0 ind = Inr (vs, ind2, calls)"
      by (auto split: sum.splits)
    from eval_each_calls [OF this] show ?thesis by simp
  qed
  with skip ev show ?thesis by blast
qed

theorem eval_objectives_valid_candidate_witness:
  "doRouting ex_cgra ex_app ex_router ex_valid_ind = (ex_valid_ind, [])
   \<and> eval_objectives [MapWidthEval] [[]] ex_cgra ex_app () ex_router ex_valid_ind
       = Inr (([2], saveEvaluatedData ''map_width'' 2 ex_valid_ind), [Objective 0])"
proof -
  have v: "isValid ex_valid_ind" by (simp add: isValid_def ex_valid_ind_def)
  note th = eval_objectives_valid_candidate
              [OF v, of ex_cgra ex_app ex_router "[MapWidthEval]" "[[]]" "()"]
  from th have skip: "doRouting ex_cgra ex_app ex_router ex_valid_ind = (ex_valid_ind, [])"
    by (rule conjunct1)
  from th have "eval_objectives [MapWidthEval] [[]] ex_cgra ex_app () ex_router ex_valid_ind =
           (case eval_each ex_cgra ex_app () (zip [MapWidthEval] [[]]) 0 ex_valid_ind of
              Inl e \<Rightarrow> Inl e
            | Inr (vs, ind2, calls) \<Rightarrow> Inr ((vs, ind2), calls))"
    by (rule conjunct1 [OF conjunct2])
  then have "eval_objectives [MapWidthEval] [[]] ex_cgra ex_app () ex_router ex_valid_ind
       = Inr (([2], saveEvaluatedData ''map_width'' 2 ex_valid_ind), [Objective 0])"
    by (simp add: MapWidthEval_def ex_MapWidthEval_eval)
  with skip show ?thesis by (rule conjI)
qed

text \<open>
  The claim that the stored fitness is reused fails: the valid candidate \<open>ex_valid_ind\<close>
  stores the fitness \<open>[5]\<close>, and its evaluation runs the mapping-width objective and
  returns \<open>[2]\<close>.
\<close>

theorem eval_objectives_recomputes_fitness:
  "isValid ex_valid_ind \<and> fitness_values ex_valid_ind = [5]
   \<and> eval_objectives [MapWidthEval] [[]] ex_cgra ex_app () ex_router ex_valid_ind
       = Inr (([2], saveEvaluatedData ''map_width'' 2 ex_valid_ind), [Objective 0])"
proof -
  have v: "isValid ex_valid_ind" by (simp add: isValid_def ex_valid_ind_def)
  have f: "fitness_values ex_valid_ind = [5]" by (simp add: ex_valid_ind_def)
  have "eval_objectives [MapWidthEval] [[]] ex_cgra ex_app () ex_router ex_valid_ind
       = Inr (([2], saveEvaluatedData ''map_width'' 2 ex_valid_ind), [Objective 0])"
    by (simp add: eval_objectives_def doRouting_valid_skips [OF v] MapWidthEval_def
          ex_MapWidthEval_eval)
  with v f show ?thesis by simp
qed

subsection \<open>The result of the mapping-width objective\<close>

lemma set_y_loop:
  "set (y_loop CGRA node x ys x_coords) =
     set x_coords \<union> (if \<exists>y \<in> set ys. in_PE (get_PE_resources CGRA (x, y)) node then {x} else {})"
  by (induction ys) (auto simp: Let_def)

lemma set_x_loop:
  "set (x_loop CGRA node height xs x_coords) =
     set x_coords \<union> {x \<in> set xs. \<exists>y \<in> set [0..height - 1]. in_PE (get_PE_resources CGRA (x, y)) node}"
  by (induction xs arbitrary: x_coords) (auto simp: set_y_loop)

lemma set_node_loop:
  "set (node_loop CGRA width height ns x_coords) =
     set x_coords \<union> {x \<in> set [0..width - 1]. \<exists>node \<in> set ns. \<exists>y \<in> set [0..height - 1].
                         in_PE (get_PE_resources CGRA (x, y)) node}"
  by (induction ns arbitrary: x_coords) (auto simp: set_x_loop)

lemma py_max_eq: "py_max xs = (if xs = [] then Inl ValueError else Inr (Max (set xs)))"
proof (cases xs)
  case Nil
  then show ?thesis by simp
next
  case (Cons a list)
  have "fold max list a = Max (set (a # list))"
    by (rule Max.set_eq_fold [symmetric])
  with Cons show ?thesis by simp
qed

lemma set_x_coords_of: "set (x_coords_of CGRA ind) = occupied_columns CGRA ind"
proof -
  have "set (x_coords_of CGRA ind) =
          {x \<in> set [0..fst (getSize CGRA) - 1].
             \<exists>node \<in> set (filter (isSE CGRA) (nodes (routed_graph ind))
                              @ filter (isALU CGRA) (nodes (routed_graph ind))).
               \<exists>y \<in> set [0..snd (getSize CGRA) - 1]. in_PE (get_PE_resources CGRA (x, y)) node}"
    by (simp add: x_coords_of_def set_node_loop)
  also have "\<dots> = occupied_columns CGRA ind"
    unfolding occupied_columns_def
    by (rule set_eqI) (auto simp: Bex_def)
  finally show ?thesis .
qed

lemma MapWidthEval_eval_eq:
  "MapWidthEval_eval CGRA app sim_params ind =
     (if occupied_columns CGRA ind = {} then Inl ValueError
      else Inr (Max (occupied_columns CGRA ind) + 1,
                saveEvaluatedData ''map_width'' (Max (occupied_columns CGRA ind) + 1) ind))"
proof -
  have "MapWidthEval_eval CGRA app sim_params ind =
          (case py_max (x_coords_of CGRA ind) of
             Inl e \<Rightarrow> Inl e
           | Inr m \<Rightarrow> Inr (m + 1, saveEvaluatedData ''map_width'' (m + 1) ind))"
    by (simp add: MapWidthEval_eval_def x_coords_of_def Let_def case_prod_beta split: sum.splits)
  also have "\<dots> = (if occupied_columns CGRA ind = {} then Inl ValueError
      else Inr (Max (occupied_columns CGRA ind) + 1,
                saveEvaluatedData ''map_width'' (Max (occupied_columns CGRA ind) + 1) ind))"
    using set_x_coords_of [of CGRA ind]
    by (auto simp: py_max_eq)
  finally show ?thesis .
qed


lemma occupied_columns_nonempty_iff:
  "occupied_columns CGRA ind \<noteq> {} \<longleftrightarrow>
     (\<exists>node \<in> set (nodes (routed_graph ind)). (isSE CGRA node \<or> isALU CGRA node) \<and>
        (\<exists>x y. 0 \<le> x \<and> x < fst (getSize CGRA) \<and> 0 \<le> y \<and> y < snd (getSize CGRA)
               \<and> in_PE (get_PE_resources CGRA (x, y)) node))"
  unfolding occupied_columns_def by blast


text \<open>
  C9. When some column is occupied, \<^verbatim>\<open>MapWidthEval.eval\<close> returns the index of the
  rightmost column of the grid that holds, among the resources of one of its processing
  elements, a switch element or ALU of the candidate's routed graph, plus one (and
  stores it under \<^verbatim>\<open>map_width\<close>); the objective is a minimisation objective.
\<close>

theorem MapWidthEval_rightmost_column:
  assumes "occupied_columns CGRA ind \<noteq> {}"
  shows "MapWidthEval_eval CGRA app sim_params ind =
           Inr (Max (occupied_columns CGRA ind) + 1,
                saveEvaluatedData ''map_width'' (Max (occupied_columns CGRA ind) + 1) ind)
       \<and> MapWidthEval_isMinimize = True"
  using assms by (simp add: MapWidthEval_eval_eq MapWidthEval_isMinimize_def)



theorem MapWidthEval_rightmost_column_witness:
  "occupied_columns ex_cgra ex_valid_ind \<noteq> {}
   \<and> Max (occupied_columns ex_cgra ex_valid_ind) + 1 = 2
   \<and> MapWidthEval_eval ex_cgra ex_app () ex_valid_ind =
       Inr (2, saveEvaluatedData ''map_width'' 2 ex_valid_ind)"
proof -
  have "0 \<le> (1::int) \<and> 1 < fst (getSize ex_cgra)
        \<and> (2 \<in> set (nodes (routed_graph ex_valid_ind)) \<and> (isSE ex_cgra 2 \<or> isALU ex_cgra 2)
           \<and> 0 \<le> (0::int) \<and> 0 < snd (getSize ex_cgra) \<and> in_PE (get_PE_resources ex_cgra (1, 0)) 2)"
    by (simp add: ex_cgra_def ex_valid_ind_def in_PE_def)
  then have "0 \<le> (1::int) \<and> 1 < fst (getSize ex_cgra)
        \<and> (\<exists>node y. node \<in> set (nodes (routed_graph ex_valid_ind))
           \<and> (isSE ex_cgra node \<or> isALU ex_cgra node)
           \<and> 0 \<le> y \<and> y < snd (getSize ex_cgra) \<and> in_PE (get_PE_resources ex_cgra (1, y)) node)"
    by blast
  then have "1 \<in> occupied_columns ex_cgra ex_valid_ind"
    unfolding occupied_columns_def by (rule CollectI)
  then have ne: "occupied_columns ex_cgra ex_valid_ind \<noteq> {}"
    by blast
  note th = MapWidthEval_rightmost_column [OF ne, of ex_app "()"]
  from th have eq: "MapWidthEval_eval ex_cgra ex_app () ex_valid_ind =
           Inr (Max (occupied_columns ex_cgra ex_valid_ind) + 1,
                saveEvaluatedData ''map_width'' (Max (occupied_columns ex_cgra ex_valid_ind) + 1)
                  ex_valid_ind)"
    by (rule conjunct1)
  have "Inr (Max (occupied_columns ex_cgra ex_valid_ind) + 1,
                saveEvaluatedData ''map_width'' (Max (occupied_columns ex_cgra ex_valid_ind) + 1)
                  ex_valid_ind) = (Inr (2, saveEvaluatedData ''map_width'' 2 ex_valid_ind)
                   :: error + int \<times> (nat, int \<times> int \<times> int \<times> int, unit) individual)"
    unfolding eq [symmetric] by (rule ex_MapWidthEval_eval)
  then have m: "Max (occupied_columns ex_cgra ex_valid_ind) + 1 = 2"
    by (simp only: sum.inject prod.inject)
  from ne m ex_MapWidthEval_eval show ?thesis by (intro conjI)
qed

text \<open>
  C10. When no node of the routed graph is classified as a switch element or an ALU,
  \<^verbatim>\<open>MapWidthEval.eval\<close> raises \<^verbatim>\<open>ValueError\<close> (the maximum of an empty list). It returns a
  number exactly when some node of the routed graph that is a switch element or an ALU
  is among the resources of a processing element of the grid, and raises otherwise.
\<close>

theorem MapWidthEval_raises_without_column:
  "((\<forall>node \<in> set (nodes (routed_graph ind)). \<not> isSE CGRA node \<and> \<not> isALU CGRA node)
      \<longrightarrow> MapWidthEval_eval CGRA app sim_params ind = Inl ValueError)
   \<and> ((\<exists>r. MapWidthEval_eval CGRA app sim_params ind = Inr r) \<longleftrightarrow>
        (\<exists>node \<in> set (nodes (routed_graph ind)). (isSE CGRA node \<or> isALU CGRA node) \<and>
           (\<exists>x y. 0 \<le> x \<and> x < fst (getSize CGRA) \<and> 0 \<le> y \<and> y < snd (getSize CGRA)
                  \<and> in_PE (get_PE_resources CGRA (x, y)) node)))
   \<and> ((\<nexists>r. MapWidthEval_eval CGRA app sim_params ind = Inr r)
         \<longrightarrow> MapWidthEval_eval CGRA app sim_params ind = Inl ValueError)"
proof (cases "occupied_columns CGRA ind = {}")
  case True
  then have raises: "MapWidthEval_eval CGRA app sim_params ind = Inl ValueError"
    by (simp add: MapWidthEval_eval_eq)
  from True occupied_columns_nonempty_iff [of CGRA ind]
  have none: "\<not> (\<exists>node \<in> set (nodes (routed_graph ind)). (isSE CGRA node \<or> isALU CGRA node) \<and>
        (\<exists>x y. 0 \<le> x \<and> x < fst (getSize CGRA) \<and> 0 \<le> y \<and> y < snd (getSize CGRA)
               \<and> in_PE (get_PE_resources CGRA (x, y)) node))"
    by simp
  from raises none show ?thesis by simp
next
  case False
  then have returns: "MapWidthEval_eval CGRA app sim_params ind =
           Inr (Max (occupied_columns CGRA ind) + 1,
                saveEvaluatedData ''map_width'' (Max (occupied_columns CGRA ind) + 1) ind)"
    by (simp add: MapWidthEval_eval_eq)
  from False occupied_columns_nonempty_iff [of CGRA ind]
  have some: "\<exists>node \<in> set (nodes (routed_graph ind)). (isSE CGRA node \<or> isALU CGRA node) \<and>
        (\<exists>x y. 0 \<le> x \<and> x < fst (getSize CGRA) \<and> 0 \<le> y \<and> y < snd (getSize CGRA)
               \<and> in_PE (get_PE_resources CGRA (x, y)) node)"
    by simp
  then have "\<not> (\<forall>node \<in> set (nodes (routed_graph ind)). \<not> isSE CGRA node \<and> \<not> isALU CGRA node)"
    by blast
  with returns some show ?thesis by simp
qed

theorem MapWidthEval_raises_without_column_witness:
  "MapWidthEval_eval ex_cgra ex_app () (ex_ind (1, 1, 1, 1)) = Inl ValueError
   \<and> (\<exists>r. MapWidthEval_eval ex_cgra ex_app () ex_valid_ind = Inr r)"
proof -
  have empty: "\<forall>node \<in> set (nodes (routed_graph (ex_ind (1, 1, 1, 1)))).
                 \<not> isSE ex_cgra node \<and> \<not> isALU ex_cgra node"
    by (simp add: ex_ind_def ex_graph_def)
  have pe: "in_PE (get_PE_resources ex_cgra (1, 0)) 2"
    by (simp add: ex_cgra_def in_PE_def)
  have facts: "2 \<in> set (nodes (routed_graph ex_valid_ind))" "isALU ex_cgra 2"
    "fst (getSize ex_cgra) = 2" "snd (getSize ex_cgra) = 2"
    by (simp_all add: ex_cgra_def ex_valid_ind_def)
  have found: "\<exists>node \<in> set (nodes (routed_graph ex_valid_ind)).
           (isSE ex_cgra node \<or> isALU ex_cgra node) \<and>
           (\<exists>x y. 0 \<le> x \<and> x < fst (getSize ex_cgra) \<and> 0 \<le> y \<and> y < snd (getSize ex_cgra)
                  \<and> in_PE (get_PE_resources ex_cgra (x, y)) node)"
  proof (rule bexI [of _ 2])
    have "0 \<le> (1::int) \<and> 1 < fst (getSize ex_cgra) \<and> 0 \<le> (0::int) \<and> 0 < snd (getSize ex_cgra)
                  \<and> in_PE (get_PE_resources ex_cgra (1, 0)) 2"
      using pe by (simp add: facts)
    then have "\<exists>x y. 0 \<le> x \<and> x < fst (getSize ex_cgra) \<and> 0 \<le> y \<and> y < snd (getSize ex_cgra)
                  \<and> in_PE (get_PE_resources ex_cgra (x, y)) 2"
      by (intro exI)
    with facts(2)
    show "(isSE ex_cgra 2 \<or> isALU ex_cgra 2) \<and>
           (\<exists>x y. 0 \<le> x \<and> x < fst (getSize ex_cgra) \<and> 0 \<le> y \<and> y < snd (getSize ex_cgra)
                  \<and> in_PE (get_PE_resources ex_cgra (x, y)) 2)"
      by (intro conjI disjI2)
    show "2 \<in> set (nodes (routed_graph ex_valid_ind))" by (rule facts(1))
  qed
  note th1 = MapWidthEval_raises_without_column [of "ex_ind (1, 1, 1, 1)" ex_cgra ex_app "()"]
  note th2 = MapWidthEval_raises_without_column [of ex_valid_ind ex_cgra ex_app "()"]
  from th1 have "(\<forall>node \<in> set (nodes (routed_graph (ex_ind (1, 1, 1, 1)))).
                 \<not> isSE ex_cgra node \<and> \<not> isALU ex_cgra node)
      \<longrightarrow> MapWidthEval_eval ex_cgra ex_app () (ex_ind (1, 1, 1, 1)) = Inl ValueError"
    by (rule conjunct1)
  with empty have a: "MapWidthEval_eval ex_cgra ex_app () (ex_ind (1, 1, 1, 1)) = Inl ValueError"
    by (rule rev_mp)
  from th2 have "(\<exists>r. MapWidthEval_eval ex_cgra ex_app () ex_valid_ind = Inr r) \<longleftrightarrow>
        (\<exists>node \<in> set (nodes (routed_graph ex_valid_ind)). (isSE ex_cgra node \<or> isALU ex_cgra node) \<and>
           (\<exists>x y. 0 \<le> x \<and> x < fst (getSize ex_cgra) \<and> 0 \<le> y \<and> y < snd (getSize ex_cgra)
                  \<and> in_PE (get_PE_resources ex_cgra (x, y)) node))"
    by (rule conjunct1 [OF conjunct2])
  from this found have b: "\<exists>r. MapWidthEval_eval ex_cgra ex_app () ex_valid_ind = Inr r"
    by (rule iffD2)
  from a b show ?thesis by (rule conjI)
qed

subsection \<open>One generation, and the loop\<close>

lemma length_repeat_call: "length (fst (repeat_call f k w)) = k"
  by (induction k arbitrary: w) (simp_all add: Let_def case_prod_beta)

lemma length_population: "length (fst (population tb w n)) = nat n"
  by (simp add: population_def length_repeat_call)

lemma length_random_population: "length (fst (random_population tb w n)) = nat n"
  by (simp add: random_population_def case_prod_beta length_repeat_call)

lemma length_map_evaluate: "map_evaluate f xs = Inr ys \<Longrightarrow> length ys = length xs"
  by (induction xs arbitrary: ys) (auto split: sum.splits)

lemma length_evaluate_all: "evaluate_all tb xs = Inr ys \<Longrightarrow> length ys = length xs"
  by (auto simp: evaluate_all_def Let_def dest: length_map_evaluate split: sum.splits if_splits)

lemma generation_gen_count: "generation tb ps s = Inr s1 \<Longrightarrow> gen_count s1 = gen_count s + 1"
  by (auto simp: generation_def Let_def split: prod.splits sum.splits if_splits)

lemma generation_stall:
  "generation tb ps s = Inr s1 \<Longrightarrow>
     stall_count s1 =
       (if length (hof s1) = length (prev_hof s)
           \<and> set (map fitness_values (hof s1)) = set (map fitness_values (prev_hof s))
        then stall_count s + 1 else 0)
     \<and> prev_hof s1 = hof s1"
  by (clarsimp simp: generation_def Let_def split: prod.splits sum.splits if_splits)

lemma generation_pop:
  assumes "generation tb ps s = Inr s1"
  shows "\<exists>offspring rnd_ind.
           pop s1 = tb_select tb (pop s @ offspring) (select_size ps) @ rnd_ind
         \<and> length offspring = length (fst (tb_varOr tb (world s) (pop s) (offspring_size ps)))
         \<and> length rnd_ind = nat (random_population_size ps)"
proof -
  obtain offspring0 w1 where v: "tb_varOr tb (world s) (pop s) (offspring_size ps) = (offspring0, w1)"
    by (cases "tb_varOr tb (world s) (pop s) (offspring_size ps)")
  obtain rnd0 w2 where r: "random_population tb w1 (random_population_size ps) = (rnd0, w2)"
    by (cases "random_population tb w1 (random_population_size ps)")
  from assms v obtain offspring where o: "evaluate_all tb offspring0 = Inr offspring"
    by (cases "evaluate_all tb offspring0") (simp_all add: generation_def Let_def)
  from assms v o r obtain rnd_ind where e: "evaluate_all tb rnd0 = Inr rnd_ind"
    by (cases "evaluate_all tb rnd0") (simp_all add: generation_def Let_def)
  have p: "pop s1 = tb_select tb (pop s @ offspring) (select_size ps) @ rnd_ind"
  proof (cases "tb_hof_update tb (hof s) (tb_select tb (pop s @ offspring) (select_size ps)) = []")
    case True
    with assms v o r e show ?thesis by (simp add: generation_def Let_def)
  next
    case False
    with assms v o r e
    have "s1 = \<lparr>pop = tb_select tb (pop s @ offspring) (select_size ps) @ rnd_ind,
                 hof = hof s1, prev_hof = prev_hof s1, gen_count = gen_count s1,
                 stall_count = stall_count s1, fitness_hof_log = fitness_hof_log s1,
                 world = world s1\<rparr>"
      by (auto simp: generation_def Let_def)
    then have "pop s1 = pop \<lparr>pop = tb_select tb (pop s @ offspring) (select_size ps) @ rnd_ind,
                 hof = hof s1, prev_hof = prev_hof s1, gen_count = gen_count s1,
                 stall_count = stall_count s1, fitness_hof_log = fitness_hof_log s1,
                 world = world s1\<rparr>"
      by (rule arg_cong)
    then show ?thesis by simp
  qed
  from r have "length rnd0 = nat (random_population_size ps)"
    using length_random_population [of tb w1 "random_population_size ps"] by simp
  with length_evaluate_all [OF e] have "length rnd_ind = nat (random_population_size ps)"
    by simp
  moreover from length_evaluate_all [OF o] v
  have "length offspring = length (fst (tb_varOr tb (world s) (pop s) (offspring_size ps)))"
    by simp
  ultimately show ?thesis using p by blast
qed

declare evolve.simps [simp del]

lemma evolve_continue:
  assumes "gen_count s < maximum_generation ps \<and> stall_count s < maximum_stall ps"
  shows "evolve tb ps s =
           (case generation tb ps s of Inl e \<Rightarrow> Inl e | Inr s1 \<Rightarrow> evolve tb ps s1)"
  using assms by (subst evolve.simps) simp

lemma evolve_stop:
  assumes "\<not> (gen_count s < maximum_generation ps \<and> stall_count s < maximum_stall ps)"
  shows "evolve tb ps s = Inr s"
  using assms by (subst evolve.simps) auto

lemma evolve_exit:
  "evolve tb ps s = Inr s' \<Longrightarrow>
     \<not> (gen_count s' < maximum_generation ps \<and> stall_count s' < maximum_stall ps)"
proof (induction tb ps s rule: evolve.induct)
  case (1 tb ps s)
  show ?case
  proof (cases "gen_count s < maximum_generation ps \<and> stall_count s < maximum_stall ps")
    case True
    with "1.prems" obtain s1 where g: "generation tb ps s = Inr s1"
      and e: "evolve tb ps s1 = Inr s'"
      by (auto simp: evolve_continue split: sum.splits)
    from "1.IH" [OF True g e] show ?thesis .
  next
    case False
    with "1.prems" have "s' = s" by (simp add: evolve_stop)
    with False show ?thesis by simp
  qed
qed

lemma evolve_bounds:
  "evolve tb ps s = Inr s' \<Longrightarrow> 0 \<le> maximum_stall ps \<Longrightarrow>
   gen_count s \<le> maximum_generation ps \<Longrightarrow> stall_count s \<le> maximum_stall ps \<Longrightarrow>
     gen_count s' \<le> maximum_generation ps \<and> stall_count s' \<le> maximum_stall ps"
proof (induction tb ps s rule: evolve.induct)
  case (1 tb ps s)
  show ?case
  proof (cases "gen_count s < maximum_generation ps \<and> stall_count s < maximum_stall ps")
    case True
    with "1.prems" obtain s1 where g: "generation tb ps s = Inr s1"
      and e: "evolve tb ps s1 = Inr s'"
      by (auto simp: evolve_continue split: sum.splits)
    from generation_gen_count [OF g] True have a: "gen_count s1 \<le> maximum_generation ps"
      by simp
    from generation_stall [OF g] have "stall_count s1 = stall_count s + 1 \<or> stall_count s1 = 0"
      by (simp split: if_splits)
    with True "1.prems"(2) have b: "stall_count s1 \<le> maximum_stall ps"
      by auto
    from "1.IH" [OF True g e "1.prems"(2) a b] show ?thesis .
  next
    case False
    with "1.prems" have "s' = s" by (simp add: evolve_stop)
    with "1.prems" show ?thesis by simp
  qed
qed

lemma evolve_trace:
  "evolve tb ps s = Inr s' \<Longrightarrow>
     \<exists>k. generations tb ps k s = Inr s' \<and> gen_count s' = gen_count s + int k
        \<and> (\<forall>j<k. \<exists>sj. generations tb ps j s = Inr sj
                     \<and> gen_count sj < maximum_generation ps
                     \<and> stall_count sj < maximum_stall ps)"
proof (induction tb ps s rule: evolve.induct)
  case (1 tb ps s)
  show ?case
  proof (cases "gen_count s < maximum_generation ps \<and> stall_count s < maximum_stall ps")
    case True
    with "1.prems" obtain s1 where g: "generation tb ps s = Inr s1"
      and e: "evolve tb ps s1 = Inr s'"
      by (auto simp: evolve_continue split: sum.splits)
    from "1.IH" [OF True g e] obtain k where
      k: "generations tb ps k s1 = Inr s'" "gen_count s' = gen_count s1 + int k"
      and before: "\<forall>j<k. \<exists>sj. generations tb ps j s1 = Inr sj
                     \<and> gen_count sj < maximum_generation ps
                     \<and> stall_count sj < maximum_stall ps"
      by blast
    have "generations tb ps (Suc k) s = Inr s'"
      using g k by simp
    moreover have "gen_count s' = gen_count s + int (Suc k)"
      using k generation_gen_count [OF g] by simp
    moreover have "\<exists>sj. generations tb ps j s = Inr sj
                     \<and> gen_count sj < maximum_generation ps
                     \<and> stall_count sj < maximum_stall ps" if "j < Suc k" for j
    proof (cases j)
      case 0
      with True show ?thesis by simp
    next
      case (Suc i)
      with that have "i < k" by simp
      with before Suc g show ?thesis by simp
    qed
    ultimately show ?thesis by blast
  next
    case False
    with "1.prems" have "s' = s" by (simp add: evolve_stop)
    then have "generations tb ps 0 s = Inr s' \<and> gen_count s' = gen_count s + int 0"
      by simp
    then show ?thesis by blast
  qed
qed

lemma evolve_error:
  "evolve tb ps s = Inl e \<Longrightarrow> \<exists>k. generations tb ps (Suc k) s = Inl e"
proof (induction tb ps s rule: evolve.induct)
  case (1 tb ps s)
  show ?case
  proof (cases "gen_count s < maximum_generation ps \<and> stall_count s < maximum_stall ps")
    case True
    show ?thesis
    proof (cases "generation tb ps s")
      case (Inl e')
      with True "1.prems" have "e' = e" by (simp add: evolve_continue)
      with Inl have "generations tb ps (Suc 0) s = Inl e" by simp
      then show ?thesis by blast
    next
      case (Inr s1)
      with True "1.prems" have "evolve tb ps s1 = Inl e" by (simp add: evolve_continue)
      from "1.IH" [OF True Inr this] obtain k where "generations tb ps (Suc k) s1 = Inl e"
        by blast
      with Inr have "generations tb ps (Suc (Suc k)) s = Inl e" by simp
      then show ?thesis by blast
    qed
  next
    case False
    with "1.prems" show ?thesis by (simp add: evolve_stop)
  qed
qed

subsection \<open>The small run, step by step\<close>

lemma ex_width_fresh:
  "MapWidthEval_eval ex_cgra ex_app () ((ex_evaluated c)\<lparr>fitness_values := fv, evaluated_data := ed\<rparr>) =
     Inr (1, (ex_evaluated c)\<lparr>fitness_values := fv,
                evaluated_data := (''map_width'', 1) # filter (\<lambda>kv. fst kv \<noteq> ''map_width'') ed\<rparr>)"
  by (simp add: MapWidthEval_eval_def ex_cgra_def ex_evaluated_def upto_0_1 in_PE_def Let_def
        saveEvaluatedData_def)

lemma ex_doRouting_fresh:
  assumes "0 \<le> c" "c \<le> 25"
  shows "fst (doRouting ex_cgra ex_app ex_router (ex_ind (c, c, c, c))) =
           (ex_evaluated c)\<lparr>fitness_values := [], evaluated_data := []\<rparr>"
  using assms
  by (simp add: doRouting_def ex_router_def ex_ind_def ex_cgra_def ex_app_def ex_graph_def
        isValid_def validate_def ex_evaluated_def Let_def)

lemma ex_evaluate_fresh:
  assumes "0 \<le> c" "c \<le> 25"
  shows "tb_evaluate ex_toolbox (ex_ind (c, c, c, c)) =
           Inr ([1], (ex_evaluated c)\<lparr>fitness_values := []\<rparr>)"
proof -
  obtain calls where d: "doRouting ex_cgra ex_app ex_router (ex_ind (c, c, c, c)) =
           ((ex_evaluated c)\<lparr>fitness_values := [], evaluated_data := []\<rparr>, calls)"
    using ex_doRouting_fresh [OF assms] by (cases "doRouting ex_cgra ex_app ex_router (ex_ind (c, c, c, c))") simp
  show ?thesis
    by (simp add: ex_toolbox_def eval_objectives_def d MapWidthEval_def ex_width_fresh)
       (simp add: ex_evaluated_def)
qed

lemma ex_evaluate_again:
  "tb_evaluate ex_toolbox (ex_evaluated c) = Inr ([1], ex_evaluated c)"
proof -
  have v: "isValid (ex_evaluated c)" by (simp add: isValid_def ex_evaluated_def)
  have e: "ex_evaluated c = (ex_evaluated c)\<lparr>fitness_values := [1], evaluated_data := [(''map_width'', 1)]\<rparr>"
    by (simp add: ex_evaluated_def)
  have "MapWidthEval_eval ex_cgra ex_app () (ex_evaluated c) = Inr (1, ex_evaluated c)"
    by (subst e, subst ex_width_fresh) (simp add: ex_evaluated_def)
  then show ?thesis
    by (simp add: ex_toolbox_def eval_objectives_def doRouting_def v MapWidthEval_def)
qed

lemma ex_evaluate_all_fresh:
  assumes "0 \<le> c" "c \<le> 25"
  shows "evaluate_all ex_toolbox [ex_ind (c, c, c, c)] = Inr [ex_evaluated c]"
  by (simp add: evaluate_all_def ex_evaluate_fresh [OF assms]) (simp add: ex_evaluated_def)

lemma ex_evaluate_all_again:
  "evaluate_all ex_toolbox [ex_evaluated c] = Inr [ex_evaluated c]"
  by (simp add: evaluate_all_def ex_evaluate_again) (simp add: ex_evaluated_def)

lemma ex_toolbox_simps:
  "tb_varOr ex_toolbox w (x # xs) n = (replicate (nat n) x, w)"
  "tb_select ex_toolbox ys k = take (nat k) (rev ys)"
  "tb_hof_update ex_toolbox = ex_hof_update"
  "random_population ex_toolbox w 1 = ([ex_ind (2, 2, 2, 2)], w)"
  "population ex_toolbox w 1 = ([ex_ind (1, 1, 1, 1)], w)"
  by (simp_all add: ex_toolbox_def random_population_def population_def)

lemma ex_params_simps:
  "initial_population_size ex_params = 1" "offspring_size ex_params = 1"
  "select_size ex_params = 2" "random_population_size ex_params = 1"
  "maximum_generation ex_params = 100" "maximum_stall ex_params = 3"
  by (simp_all add: ex_params_def)

lemma ex_evaluated_simps:
  "fitness_values (ex_evaluated c) = [1]" "isValid (ex_evaluated c)"
  "ex_evaluated 1 \<noteq> ex_evaluated 2" "ex_evaluated 2 \<noteq> ex_evaluated 1"
  by (simp_all add: ex_evaluated_def isValid_def)

lemma ex_hof_update_simps:
  "ex_hof_update [] [ex_evaluated 1, ex_evaluated 1] = [ex_evaluated 1]"
  "ex_hof_update [ex_evaluated 1] [ex_evaluated 1, ex_evaluated 2] = [ex_evaluated 1, ex_evaluated 2]"
  "ex_hof_update [ex_evaluated 1, ex_evaluated 2] [ex_evaluated 1, ex_evaluated 2]
     = [ex_evaluated 1, ex_evaluated 2]"
  by (simp_all add: ex_hof_update_def ex_hof_insert_def ex_dominates_def ex_evaluated_simps)

lemma ex_generation_1:
  "generation ex_toolbox ex_params (ex_state [ex_evaluated 1] [] 0 0 []) =
     Inr (ex_state [ex_evaluated 1, ex_evaluated 1, ex_evaluated 2] [ex_evaluated 1] 1 0 [[[1]]])"
  by (simp add: generation_def Let_def ex_state_def ex_toolbox_simps ex_params_simps
        ex_evaluate_all_again ex_evaluate_all_fresh ex_hof_update_simps ex_evaluated_simps)

lemma ex_generation_2:
  "generation ex_toolbox ex_params
     (ex_state [ex_evaluated 1, ex_evaluated 1, ex_evaluated 2] [ex_evaluated 1] 1 0 [[[1]]]) =
     Inr (ex_state [ex_evaluated 1, ex_evaluated 2, ex_evaluated 2]
            [ex_evaluated 1, ex_evaluated 2] 2 0 [[[1]], [[1], [1]]])"
  by (simp add: generation_def Let_def ex_state_def ex_toolbox_simps ex_params_simps
        ex_evaluate_all_again ex_evaluate_all_fresh ex_hof_update_simps ex_evaluated_simps)

lemma ex_generation_later:
  "generation ex_toolbox ex_params
     (ex_state [ex_evaluated 1, ex_evaluated 2, ex_evaluated 2]
        [ex_evaluated 1, ex_evaluated 2] g c lg) =
     Inr (ex_state [ex_evaluated 1, ex_evaluated 2, ex_evaluated 2]
            [ex_evaluated 1, ex_evaluated 2] (g + 1) (c + 1) (lg @ [[[1], [1]]]))"
  by (simp add: generation_def Let_def ex_state_def ex_toolbox_simps ex_params_simps
        ex_evaluate_all_again ex_evaluate_all_fresh ex_hof_update_simps ex_evaluated_simps)

lemma ex_state_simps:
  "pop (ex_state p h g c lg) = p" "hof (ex_state p h g c lg) = h"
  "prev_hof (ex_state p h g c lg) = h" "gen_count (ex_state p h g c lg) = g"
  "stall_count (ex_state p h g c lg) = c"
  by (simp_all add: ex_state_def)

lemma ex_generations_1:
  "generations ex_toolbox ex_params 1 (ex_state [ex_evaluated 1] [] 0 0 []) =
     Inr (ex_state [ex_evaluated 1, ex_evaluated 1, ex_evaluated 2] [ex_evaluated 1] 1 0 [[[1]]])"
proof -
  have "generations ex_toolbox ex_params (Suc 0) (ex_state [ex_evaluated 1] [] 0 0 []) =
     Inr (ex_state [ex_evaluated 1, ex_evaluated 1, ex_evaluated 2] [ex_evaluated 1] 1 0 [[[1]]])"
    by (simp add: ex_generation_1)
  then show ?thesis by simp
qed

lemma ex_generations_2:
  "generations ex_toolbox ex_params 2 (ex_state [ex_evaluated 1] [] 0 0 []) =
     Inr (ex_state [ex_evaluated 1, ex_evaluated 2, ex_evaluated 2]
            [ex_evaluated 1, ex_evaluated 2] 2 0 [[[1]], [[1], [1]]])"
proof -
  have "generations ex_toolbox ex_params (Suc (Suc 0)) (ex_state [ex_evaluated 1] [] 0 0 []) =
     Inr (ex_state [ex_evaluated 1, ex_evaluated 2, ex_evaluated 2]
            [ex_evaluated 1, ex_evaluated 2] 2 0 [[[1]], [[1], [1]]])"
    by (simp add: ex_generation_1 ex_generation_2)
  then show ?thesis by (simp add: numeral_2_eq_2)
qed

lemma ex_evolve:
  "evolve ex_toolbox ex_params (ex_state [ex_evaluated 1] [] 0 0 []) =
     Inr (ex_state [ex_evaluated 1, ex_evaluated 2, ex_evaluated 2]
            [ex_evaluated 1, ex_evaluated 2] 5 3
            [[[1]], [[1], [1]], [[1], [1]], [[1], [1]], [[1], [1]]])"
proof -
  have e5: "evolve ex_toolbox ex_params
              (ex_state [ex_evaluated 1, ex_evaluated 2, ex_evaluated 2]
                 [ex_evaluated 1, ex_evaluated 2] 5 3
                 [[[1]], [[1], [1]], [[1], [1]], [[1], [1]], [[1], [1]]]) =
            Inr (ex_state [ex_evaluated 1, ex_evaluated 2, ex_evaluated 2]
                   [ex_evaluated 1, ex_evaluated 2] 5 3
                   [[[1]], [[1], [1]], [[1], [1]], [[1], [1]], [[1], [1]]])"
    by (rule evolve_stop) (simp add: ex_state_simps ex_params_simps)
  have e4: "evolve ex_toolbox ex_params
              (ex_state [ex_evaluated 1, ex_evaluated 2, ex_evaluated 2]
                 [ex_evaluated 1, ex_evaluated 2] 4 2
                 [[[1]], [[1], [1]], [[1], [1]], [[1], [1]]]) =
            Inr (ex_state [ex_evaluated 1, ex_evaluated 2, ex_evaluated 2]
                   [ex_evaluated 1, ex_evaluated 2] 5 3
                   [[[1]], [[1], [1]], [[1], [1]], [[1], [1]], [[1], [1]]])"
    by (simp add: evolve_continue ex_state_simps ex_params_simps ex_generation_later e5)
  have e3: "evolve ex_toolbox ex_params
              (ex_state [ex_evaluated 1, ex_evaluated 2, ex_evaluated 2]
                 [ex_evaluated 1, ex_evaluated 2] 3 1
                 [[[1]], [[1], [1]], [[1], [1]]]) =
            Inr (ex_state [ex_evaluated 1, ex_evaluated 2, ex_evaluated 2]
                   [ex_evaluated 1, ex_evaluated 2] 5 3
                   [[[1]], [[1], [1]], [[1], [1]], [[1], [1]], [[1], [1]]])"
    by (simp add: evolve_continue ex_state_simps ex_params_simps ex_generation_later e4)
  have e2: "evolve ex_toolbox ex_params
              (ex_state [ex_evaluated 1, ex_evaluated 2, ex_evaluated 2]
                 [ex_evaluated 1, ex_evaluated 2] 2 0
                 [[[1]], [[1], [1]]]) =
            Inr (ex_state [ex_evaluated 1, ex_evaluated 2, ex_evaluated 2]
                   [ex_evaluated 1, ex_evaluated 2] 5 3
                   [[[1]], [[1], [1]], [[1], [1]], [[1], [1]], [[1], [1]]])"
    by (simp add: evolve_continue ex_state_simps ex_params_simps ex_generation_later e3)
  have e1: "evolve ex_toolbox ex_params
              (ex_state [ex_evaluated 1, ex_evaluated 1, ex_evaluated 2] [ex_evaluated 1] 1 0
                 [[[1]]]) =
            Inr (ex_state [ex_evaluated 1, ex_evaluated 2, ex_evaluated 2]
                   [ex_evaluated 1, ex_evaluated 2] 5 3
                   [[[1]], [[1], [1]], [[1], [1]], [[1], [1]], [[1], [1]]])"
    by (simp add: evolve_continue ex_state_simps ex_params_simps ex_generation_2 e2)
  show ?thesis
    by (simp add: evolve_continue ex_state_simps ex_params_simps ex_generation_1 e1)
qed

lemma ex_runOptimization:
  assumes "\<not> hv_logging self"
  shows "runOptimization self ex_hypervolume ex_toolbox ex_params () =
           Inr (([ex_evaluated 1, ex_evaluated 2], None), self)"
proof -
  have init: "\<lparr>pop = [ex_evaluated 1], hof = [], prev_hof = [], gen_count = 0, stall_count = 0,
                fitness_hof_log = [], world = ()\<rparr> = ex_state [ex_evaluated 1] [] 0 0 []"
    by (simp add: ex_state_def)
  have fin: "finish self ex_hypervolume
               (ex_state [ex_evaluated 1, ex_evaluated 2, ex_evaluated 2]
                  [ex_evaluated 1, ex_evaluated 2] 5 3
                  [[[1]], [[1], [1]], [[1], [1]], [[1], [1]], [[1], [1]]])
             = (([ex_evaluated 1, ex_evaluated 2], None), self)"
    using assms by (simp add: finish_def Let_def ex_state_simps ex_evaluated_simps)
  show ?thesis
    by (simp add: runOptimization_def ex_toolbox_simps ex_params_simps ex_evaluate_all_fresh
          init ex_evolve fin)
qed

subsection \<open>Termination of the loop\<close>

text \<open>
  C7. The loop starts with both counters at 0; the configured maxima are counts, that
  is, not negative. The loop always ends: by an exception of some generation, or else
  in a state where the generation counter equals the maximum generation or the stall
  counter equals the maximum stall. It ends at the first such state: it has run \<open>k\<close>
  generations, \<open>k\<close> is the generation counter, and before each of them both counters were
  below their maxima. If the generation counter is below its maximum at the end, the
  stall counter equals the maximum stall.
\<close>

theorem evolve_stops_at_first_limit:
  assumes "gen_count s = 0" and "stall_count s = 0"
    and "0 \<le> maximum_generation ps" and "0 \<le> maximum_stall ps"
  shows "case evolve tb ps s of
           Inl e \<Rightarrow> (\<exists>k. generations tb ps (Suc k) s = Inl e)
         | Inr s' \<Rightarrow>
             (gen_count s' = maximum_generation ps \<or> stall_count s' = maximum_stall ps)
           \<and> (gen_count s' < maximum_generation ps \<longrightarrow> stall_count s' = maximum_stall ps)
           \<and> (\<exists>k. generations tb ps k s = Inr s' \<and> gen_count s' = int k
                  \<and> (\<forall>j<k. \<exists>sj. generations tb ps j s = Inr sj
                                \<and> gen_count sj < maximum_generation ps
                                \<and> stall_count sj < maximum_stall ps))"
proof (cases "evolve tb ps s")
  case (Inl e)
  from evolve_error [OF Inl] Inl show ?thesis by simp
next
  case (Inr s')
  from evolve_exit [OF Inr]
  have exit: "\<not> (gen_count s' < maximum_generation ps \<and> stall_count s' < maximum_stall ps)" .
  from evolve_bounds [OF Inr] assms
  have bounds: "gen_count s' \<le> maximum_generation ps \<and> stall_count s' \<le> maximum_stall ps"
    by simp
  from evolve_trace [OF Inr] assms(1)
  have trace: "\<exists>k. generations tb ps k s = Inr s' \<and> gen_count s' = int k
                  \<and> (\<forall>j<k. \<exists>sj. generations tb ps j s = Inr sj
                                \<and> gen_count sj < maximum_generation ps
                                \<and> stall_count sj < maximum_stall ps)"
    by simp
  from exit bounds
  have "(gen_count s' = maximum_generation ps \<or> stall_count s' = maximum_stall ps)
      \<and> (gen_count s' < maximum_generation ps \<longrightarrow> stall_count s' = maximum_stall ps)"
    by linarith
  with trace Inr show ?thesis by simp
qed

text \<open>
  In the small run the maximum stall 3 is reached after 5 of at most 100 generations.
\<close>

theorem evolve_stops_at_first_limit_witness:
  "evolve ex_toolbox ex_params (ex_state [ex_evaluated 1] [] 0 0 []) =
     Inr (ex_state [ex_evaluated 1, ex_evaluated 2, ex_evaluated 2]
            [ex_evaluated 1, ex_evaluated 2] 5 3
            [[[1]], [[1], [1]], [[1], [1]], [[1], [1]], [[1], [1]]])
   \<and> (5::int) < maximum_generation ex_params \<and> (3::int) = maximum_stall ex_params
   \<and> (\<exists>k. generations ex_toolbox ex_params k (ex_state [ex_evaluated 1] [] 0 0 []) =
            Inr (ex_state [ex_evaluated 1, ex_evaluated 2, ex_evaluated 2]
                   [ex_evaluated 1, ex_evaluated 2] 5 3
                   [[[1]], [[1], [1]], [[1], [1]], [[1], [1]], [[1], [1]]])
          \<and> 5 = int k)"
proof -
  have g: "gen_count (ex_state [ex_evaluated 1] [] 0 0 []) = 0"
    and st: "stall_count (ex_state [ex_evaluated 1] [] 0 0 []) = 0"
    and mg: "0 \<le> maximum_generation ex_params" and ms: "0 \<le> maximum_stall ex_params"
    by (simp_all add: ex_state_simps ex_params_simps)
  note th = evolve_stops_at_first_limit [OF g st mg ms, of ex_toolbox]
  from th have "(gen_count (ex_state [ex_evaluated 1, ex_evaluated 2, ex_evaluated 2]
                   [ex_evaluated 1, ex_evaluated 2] 5 3
                   [[[1]], [[1], [1]], [[1], [1]], [[1], [1]], [[1], [1]]]) < maximum_generation ex_params
         \<longrightarrow> stall_count (ex_state [ex_evaluated 1, ex_evaluated 2, ex_evaluated 2]
                   [ex_evaluated 1, ex_evaluated 2] 5 3
                   [[[1]], [[1], [1]], [[1], [1]], [[1], [1]], [[1], [1]]]) = maximum_stall ex_params)
     \<and> (\<exists>k. generations ex_toolbox ex_params k (ex_state [ex_evaluated 1] [] 0 0 []) =
            Inr (ex_state [ex_evaluated 1, ex_evaluated 2, ex_evaluated 2]
                   [ex_evaluated 1, ex_evaluated 2] 5 3
                   [[[1]], [[1], [1]], [[1], [1]], [[1], [1]], [[1], [1]]])
          \<and> gen_count (ex_state [ex_evaluated 1, ex_evaluated 2, ex_evaluated 2]
                   [ex_evaluated 1, ex_evaluated 2] 5 3
                   [[[1]], [[1], [1]], [[1], [1]], [[1], [1]], [[1], [1]]]) = int k)"
    unfolding ex_evolve by auto
  then have "(5 < maximum_generation ex_params \<longrightarrow> 3 = maximum_stall ex_params)
     \<and> (\<exists>k. generations ex_toolbox ex_params k (ex_state [ex_evaluated 1] [] 0 0 []) =
            Inr (ex_state [ex_evaluated 1, ex_evaluated 2, ex_evaluated 2]
                   [ex_evaluated 1, ex_evaluated 2] 5 3
                   [[[1]], [[1], [1]], [[1], [1]], [[1], [1]], [[1], [1]]])
          \<and> 5 = int k)"
    by (simp add: ex_state_simps)
  moreover have "(5::int) < maximum_generation ex_params"
    by (simp add: ex_params_simps)
  ultimately show ?thesis using ex_evolve by blast
qed

subsection \<open>The size of the population\<close>

text \<open>
  C2, as the code has it. The first population has the configured initial size. In
  each generation the population is replaced by what the selection returns from the
  population and the offspring, and the random candidates, as many as the random
  population size, are appended to it: nothing is removed after the selection, but the
  selection itself drops candidates. So the population after a generation is the
  selected candidates followed by the injected ones.
  \<^item> With a selection that returns at most as many candidates as it is asked for, the
    population after a generation has at most select size plus random population size
    candidates.
  \<^item> With a selection that returns as many candidates as it is asked for, or all of
    them when there are fewer, the size after a generation is the minimum of the
    select size and of the number of candidates and offspring, plus the random
    population size. When the population already holds at least select size
    candidates, this is exactly select size plus random population size: from then on
    the size stays the same from generation to generation.
\<close>

theorem generation_population_size:
  assumes "generation tb ps s = Inr s1"
  shows "(\<exists>offspring rnd_ind.
            pop s1 = tb_select tb (pop s @ offspring) (select_size ps) @ rnd_ind
          \<and> length offspring = length (fst (tb_varOr tb (world s) (pop s) (offspring_size ps)))
          \<and> length rnd_ind = nat (random_population_size ps))
       \<and> ((\<forall>xs k. length (tb_select tb xs k) \<le> nat k) \<longrightarrow>
            length (pop s1) \<le> nat (select_size ps) + nat (random_population_size ps))
       \<and> ((\<forall>xs k. length (tb_select tb xs k) = min (nat k) (length xs)) \<longrightarrow>
            length (pop s1) =
              min (nat (select_size ps))
                  (length (pop s)
                   + length (fst (tb_varOr tb (world s) (pop s) (offspring_size ps))))
              + nat (random_population_size ps))
       \<and> ((\<forall>xs k. length (tb_select tb xs k) = min (nat k) (length xs))
            \<and> nat (select_size ps) \<le> length (pop s) \<longrightarrow>
            length (pop s1) = nat (select_size ps) + nat (random_population_size ps))
       \<and> length (fst (population tb w (initial_population_size ps)))
            = nat (initial_population_size ps)"
proof -
  from generation_pop [OF assms] obtain offspring rnd_ind where
    p: "pop s1 = tb_select tb (pop s @ offspring) (select_size ps) @ rnd_ind" and
    o: "length offspring = length (fst (tb_varOr tb (world s) (pop s) (offspring_size ps)))" and
    r: "length rnd_ind = nat (random_population_size ps)"
    by blast
  from p r have size: "length (pop s1) =
      length (tb_select tb (pop s @ offspring) (select_size ps)) + nat (random_population_size ps)"
    by simp
  have bound: "length (pop s1) \<le> nat (select_size ps) + nat (random_population_size ps)"
    if sel: "\<forall>xs k. length (tb_select tb xs k) \<le> nat k"
  proof -
    from sel have "length (tb_select tb (pop s @ offspring) (select_size ps)) \<le> nat (select_size ps)"
      by blast
    with size show ?thesis by simp
  qed
  have exact: "length (pop s1) =
              min (nat (select_size ps))
                  (length (pop s)
                   + length (fst (tb_varOr tb (world s) (pop s) (offspring_size ps))))
              + nat (random_population_size ps)"
    if sel: "\<forall>xs k. length (tb_select tb xs k) = min (nat k) (length xs)"
  proof -
    from sel have "length (tb_select tb (pop s @ offspring) (select_size ps))
                     = min (nat (select_size ps)) (length (pop s @ offspring))"
      by blast
    with size o show ?thesis by simp
  qed
  have steady: "length (pop s1) = nat (select_size ps) + nat (random_population_size ps)"
    if sel: "\<forall>xs k. length (tb_select tb xs k) = min (nat k) (length xs)"
      and full: "nat (select_size ps) \<le> length (pop s)"
    using exact [OF sel] full by simp
  from p o r have shape: "\<exists>offspring rnd_ind.
            pop s1 = tb_select tb (pop s @ offspring) (select_size ps) @ rnd_ind
          \<and> length offspring = length (fst (tb_varOr tb (world s) (pop s) (offspring_size ps)))
          \<and> length rnd_ind = nat (random_population_size ps)"
    by blast
  from shape bound exact steady length_population [of tb w "initial_population_size ps"]
  show ?thesis by blast
qed

text \<open>
  In the small run the selection returns the last two candidates of the list, or all
  when there are fewer. The population holds 3 candidates after the first generation,
  so after the second it holds 2 + 1.
\<close>

theorem generation_population_size_witness:
  "length (pop (ex_state [ex_evaluated 1, ex_evaluated 2, ex_evaluated 2]
            [ex_evaluated 1, ex_evaluated 2] 2 0 [[[1]], [[1], [1]]])) = 2 + 1
   \<and> length (fst (population ex_toolbox () (initial_population_size ex_params))) = 1"
proof -
  note th = generation_population_size [OF ex_generation_2, of "()"]
  have sel: "\<forall>xs k. length (tb_select ex_toolbox xs k) = min (nat k) (length xs)"
    by (simp add: ex_toolbox_simps min.commute)
  have full: "nat (select_size ex_params)
                \<le> length (pop (ex_state [ex_evaluated 1, ex_evaluated 1, ex_evaluated 2]
                                 [ex_evaluated 1] 1 0 [[[1]]]))"
    by (simp add: ex_params_simps ex_state_simps)
  from th [THEN conjunct2, THEN conjunct2, THEN conjunct2, THEN conjunct1, THEN mp,
           OF conjI, OF sel full]
  have a: "length (pop (ex_state [ex_evaluated 1, ex_evaluated 2, ex_evaluated 2]
            [ex_evaluated 1, ex_evaluated 2] 2 0 [[[1]], [[1], [1]]])) = 2 + 1"
    by (simp add: ex_params_simps)
  from th [THEN conjunct2, THEN conjunct2, THEN conjunct2, THEN conjunct2]
  have b: "length (fst (population ex_toolbox () (initial_population_size ex_params))) = 1"
    by (simp add: ex_params_simps)
  from a b show ?thesis by (rule conjI)
qed

text \<open>
  The claim that the population is strictly larger after each generation fails: in the
  small run it has 3 candidates after the first generation and 3 after the second.
\<close>

theorem population_size_does_not_grow:
  "length (fst (population ex_toolbox () (initial_population_size ex_params))) = 1
   \<and> generations ex_toolbox ex_params 1 (ex_state [ex_evaluated 1] [] 0 0 []) =
       Inr (ex_state [ex_evaluated 1, ex_evaluated 1, ex_evaluated 2] [ex_evaluated 1] 1 0 [[[1]]])
   \<and> generations ex_toolbox ex_params 2 (ex_state [ex_evaluated 1] [] 0 0 []) =
       Inr (ex_state [ex_evaluated 1, ex_evaluated 2, ex_evaluated 2]
              [ex_evaluated 1, ex_evaluated 2] 2 0 [[[1]], [[1], [1]]])
   \<and> length (pop (ex_state [ex_evaluated 1, ex_evaluated 1, ex_evaluated 2] [ex_evaluated 1]
                     1 0 [[[1]]])) = 3
   \<and> length (pop (ex_state [ex_evaluated 1, ex_evaluated 2, ex_evaluated 2]
                     [ex_evaluated 1, ex_evaluated 2] 2 0 [[[1]], [[1], [1]]])) = 3"
proof (intro conjI)
  show "length (fst (population ex_toolbox () (initial_population_size ex_params))) = 1"
    by (simp add: ex_toolbox_simps ex_params_simps)
  show "generations ex_toolbox ex_params 1 (ex_state [ex_evaluated 1] [] 0 0 []) =
       Inr (ex_state [ex_evaluated 1, ex_evaluated 1, ex_evaluated 2] [ex_evaluated 1] 1 0 [[[1]]])"
    by (rule ex_generations_1)
  show "generations ex_toolbox ex_params 2 (ex_state [ex_evaluated 1] [] 0 0 []) =
       Inr (ex_state [ex_evaluated 1, ex_evaluated 2, ex_evaluated 2]
              [ex_evaluated 1, ex_evaluated 2] 2 0 [[[1]], [[1], [1]]])"
    by (rule ex_generations_2)
qed (simp_all add: ex_state_simps)

subsection \<open>The stall counter\<close>

text \<open>
  C3, as the code has it. After a generation the stall counter is one more than before
  when the archive has as many candidates as the archive of the generation before and
  the two sets of fitness vectors are equal; otherwise it is 0. The archive is then
  remembered as the previous one. When neither archive holds two candidates of equal
  fitness, the number of candidates follows from the set, and the counter is reset
  exactly when the sets differ.
\<close>

theorem stall_counter_update:
  assumes "generation tb ps s = Inr s1"
  shows "stall_count s1 =
           (if length (hof s1) = length (prev_hof s)
               \<and> set (map fitness_values (hof s1)) = set (map fitness_values (prev_hof s))
            then stall_count s + 1 else 0)
       \<and> prev_hof s1 = hof s1
       \<and> (distinct (map fitness_values (hof s1)) \<and> distinct (map fitness_values (prev_hof s))
            \<longrightarrow> stall_count s1 =
                  (if set (map fitness_values (hof s1)) = set (map fitness_values (prev_hof s))
                   then stall_count s + 1 else 0))"
proof -
  note st = generation_stall [OF assms]
  have "length (hof s1) = length (prev_hof s)"
    if d: "distinct (map fitness_values (hof s1))" "distinct (map fitness_values (prev_hof s))"
      and e: "set (map fitness_values (hof s1)) = set (map fitness_values (prev_hof s))"
  proof -
    from d have "card (set (map fitness_values (hof s1))) = length (hof s1)"
      and "card (set (map fitness_values (prev_hof s))) = length (prev_hof s)"
      using distinct_card [of "map fitness_values (hof s1)"]
        distinct_card [of "map fitness_values (prev_hof s)"] by simp_all
    with e show ?thesis by simp
  qed
  with st show ?thesis by auto
qed

theorem stall_counter_update_witness:
  "stall_count (ex_state [ex_evaluated 1, ex_evaluated 2, ex_evaluated 2]
            [ex_evaluated 1, ex_evaluated 2] (2 + 1) (0 + 1) ([[[1]], [[1], [1]]] @ [[[1], [1]]])) = 1"
proof -
  note th = stall_counter_update [OF ex_generation_later [of 2 0 "[[[1]], [[1], [1]]]"]]
  from th have "stall_count (ex_state [ex_evaluated 1, ex_evaluated 2, ex_evaluated 2]
            [ex_evaluated 1, ex_evaluated 2] (2 + 1) (0 + 1) ([[[1]], [[1], [1]]] @ [[[1], [1]]])) =
           (if length (hof (ex_state [ex_evaluated 1, ex_evaluated 2, ex_evaluated 2]
            [ex_evaluated 1, ex_evaluated 2] (2 + 1) (0 + 1) ([[[1]], [[1], [1]]] @ [[[1], [1]]])))
               = length (prev_hof (ex_state [ex_evaluated 1, ex_evaluated 2, ex_evaluated 2]
                  [ex_evaluated 1, ex_evaluated 2] 2 0 [[[1]], [[1], [1]]]))
               \<and> set (map fitness_values (hof (ex_state [ex_evaluated 1, ex_evaluated 2, ex_evaluated 2]
            [ex_evaluated 1, ex_evaluated 2] (2 + 1) (0 + 1) ([[[1]], [[1], [1]]] @ [[[1], [1]]]))))
                 = set (map fitness_values (prev_hof (ex_state [ex_evaluated 1, ex_evaluated 2, ex_evaluated 2]
                  [ex_evaluated 1, ex_evaluated 2] 2 0 [[[1]], [[1], [1]]])))
            then stall_count (ex_state [ex_evaluated 1, ex_evaluated 2, ex_evaluated 2]
                  [ex_evaluated 1, ex_evaluated 2] 2 0 [[[1]], [[1], [1]]]) + 1 else 0)"
    by (rule conjunct1)
  then show ?thesis by (simp add: ex_state_simps)
qed

text \<open>
  The claim that equal sets always increment the counter fails: in the second generation
  of the small run the archive gains a second candidate with the fitness \<open>[1]\<close> that the
  first one has; the sets of fitness vectors are equal, and the counter is reset to 0.
\<close>

theorem stall_resets_on_equal_sets:
  "generation ex_toolbox ex_params (ex_state [ex_evaluated 1] [] 0 0 []) =
     Inr (ex_state [ex_evaluated 1, ex_evaluated 1, ex_evaluated 2] [ex_evaluated 1] 1 0 [[[1]]])
   \<and> generation ex_toolbox ex_params
       (ex_state [ex_evaluated 1, ex_evaluated 1, ex_evaluated 2] [ex_evaluated 1] 1 0 [[[1]]]) =
       Inr (ex_state [ex_evaluated 1, ex_evaluated 2, ex_evaluated 2]
              [ex_evaluated 1, ex_evaluated 2] 2 0 [[[1]], [[1], [1]]])
   \<and> set (map fitness_values [ex_evaluated 1, ex_evaluated 2])
       = set (map fitness_values [ex_evaluated 1])
   \<and> stall_count (ex_state [ex_evaluated 1, ex_evaluated 1, ex_evaluated 2] [ex_evaluated 1]
                     1 0 [[[1]]]) = 0
   \<and> stall_count (ex_state [ex_evaluated 1, ex_evaluated 2, ex_evaluated 2]
                     [ex_evaluated 1, ex_evaluated 2] 2 0 [[[1]], [[1], [1]]]) = 0"
  by (simp add: ex_generation_1 ex_generation_2 ex_state_simps ex_evaluated_simps)

subsection \<open>Quality tracking\<close>

text \<open>
  C8, as the code has it. When the hypervolume class cannot be imported, \<^verbatim>\<open>__init__\<close>
  still returns the optimiser, with quality tracking off. With exactly one objective,
  tracking is off from \<^verbatim>\<open>setup\<close> on. Once off it stays off: \<^verbatim>\<open>setup\<close> keeps it off and
  \<^verbatim>\<open>set_ref_point\<close> only reports that the option is ignored, returns \<open>True\<close> and changes
  nothing. With tracking off, the end of the run returns the valid candidates of the
  archive with \<open>None\<close> for the quality series; a run that returns, returns \<open>None\<close>, and a
  run with tracking off raises only where the same run with tracking on raises.
\<close>

theorem quality_tracking_disabled:
  "(evals \<noteq> [] \<longrightarrow>
      (\<exists>self0. nsga2_init evals False = Inr self0 \<and> eval_list self0 = evals
               \<and> \<not> hv_logging self0))
   \<and> (length (eval_list self) = 1 \<longrightarrow> \<not> hv_logging (snd (nsga2_setup self init_maps)))
   \<and> (\<not> hv_logging self \<longrightarrow>
        \<not> hv_logging (snd (nsga2_setup self init_maps))
      \<and> set_ref_point self ref_point =
          (True, [''Hypervolume logging is disabled'', ''Ref-point option is ignored''], self)
      \<and> finish self hv s = ((filter isValid (hof s), None), self)
      \<and> (\<forall>r. runOptimization self hv tb ps w = Inr r \<longrightarrow> snd (fst r) = None \<and> snd r = self)
      \<and> (\<forall>e. runOptimization self hv tb ps w = Inl e \<longrightarrow>
              runOptimization (self\<lparr>hv_logging := True\<rparr>) hv tb ps w = Inl e))"
proof (intro conjI impI allI)
  assume "evals \<noteq> []"
  then show "\<exists>self0. nsga2_init evals False = Inr self0 \<and> eval_list self0 = evals
               \<and> \<not> hv_logging self0"
    by (simp add: nsga2_init_def)
next
  assume "length (eval_list self) = 1"
  then show "\<not> hv_logging (snd (nsga2_setup self init_maps))"
    by (simp add: nsga2_setup_def Let_def)
next
  assume d: "\<not> hv_logging self"
  then show "\<not> hv_logging (snd (nsga2_setup self init_maps))"
    by (simp add: nsga2_setup_def Let_def)
  from d show "set_ref_point self ref_point =
          (True, [''Hypervolume logging is disabled'', ''Ref-point option is ignored''], self)"
    by (simp add: set_ref_point_def)
  from d show "finish self hv s = ((filter isValid (hof s), None), self)"
    by (simp add: finish_def Let_def)
next
  fix r
  assume d: "\<not> hv_logging self" and r: "runOptimization self hv tb ps w = Inr r"
  from d r show "snd (fst r) = None"
    by (auto simp: runOptimization_def finish_def Let_def split: prod.splits sum.splits)
  from d r show "snd r = self"
    by (auto simp: runOptimization_def finish_def Let_def split: prod.splits sum.splits)
next
  fix e
  assume "runOptimization self hv tb ps w = Inl e"
  then show "runOptimization (self\<lparr>hv_logging := True\<rparr>) hv tb ps w = Inl e"
    by (auto simp: runOptimization_def Let_def split: prod.splits sum.splits)
qed

text \<open>
  Two objectives and a failed import: the constructor returns the optimiser with
  tracking off. One objective and a successful import: the constructor returns
  \<open>ex_nsga2\<close>; after \<^verbatim>\<open>setup\<close> tracking is off, a reference point is ignored, and the
  small run returns its archive with \<open>None\<close>.
\<close>

theorem quality_tracking_disabled_witness:
  "(\<exists>self0 :: (string, int) nsga2.
      nsga2_init [''Mapping_Width'', ''Wire_Length''] False = Inr self0
      \<and> eval_list self0 = [''Mapping_Width'', ''Wire_Length''] \<and> \<not> hv_logging self0)
   \<and> nsga2_init [''Mapping_Width''] True = Inr ex_nsga2
   \<and> \<not> hv_logging (snd (nsga2_setup ex_nsga2 [()]))
   \<and> set_ref_point (snd (nsga2_setup ex_nsga2 [()])) [5] =
       (True, [''Hypervolume logging is disabled'', ''Ref-point option is ignored''],
        snd (nsga2_setup ex_nsga2 [()]))
   \<and> runOptimization (snd (nsga2_setup ex_nsga2 [()])) ex_hypervolume ex_toolbox ex_params () =
       Inr (([ex_evaluated 1, ex_evaluated 2], None), snd (nsga2_setup ex_nsga2 [()]))"
proof -
  note th0 = quality_tracking_disabled
               [where evals = "[''Mapping_Width'', ''Wire_Length'']" and 'b = int]
  note th1 = quality_tracking_disabled [where self = ex_nsga2 and init_maps = "[()]"]
  note th2 = quality_tracking_disabled
               [where self = "snd (nsga2_setup ex_nsga2 [()])" and ref_point = "[5]"]
  have ne: "[''Mapping_Width'', ''Wire_Length''] \<noteq> []"
    by simp
  from th0 [THEN conjunct1, THEN mp, OF ne]
  have init: "\<exists>self0 :: (string, int) nsga2.
      nsga2_init [''Mapping_Width'', ''Wire_Length''] False = Inr self0
      \<and> eval_list self0 = [''Mapping_Width'', ''Wire_Length''] \<and> \<not> hv_logging self0" .
  have made: "nsga2_init [''Mapping_Width''] True = Inr ex_nsga2"
    by (simp add: nsga2_init_def ex_nsga2_def)
  have one: "length (eval_list ex_nsga2) = 1"
    by (simp add: ex_nsga2_def)
  from th1 have "length (eval_list ex_nsga2) = 1 \<longrightarrow> \<not> hv_logging (snd (nsga2_setup ex_nsga2 [()]))"
    by (rule conjunct1 [OF conjunct2])
  with one have off: "\<not> hv_logging (snd (nsga2_setup ex_nsga2 [()]))"
    by (rule rev_mp)
  from th2 [THEN conjunct2, THEN conjunct2, THEN mp, OF off, THEN conjunct2, THEN conjunct1]
  have rp: "set_ref_point (snd (nsga2_setup ex_nsga2 [()])) [5] =
          (True, [''Hypervolume logging is disabled'', ''Ref-point option is ignored''],
           snd (nsga2_setup ex_nsga2 [()]))" .
  from init made off rp ex_runOptimization [OF off] show ?thesis by (intro conjI)
qed

text \<open>
  The claim that tracking is off whenever exactly one objective is configured fails
  between \<^verbatim>\<open>__init__\<close> and \<^verbatim>\<open>setup\<close>: the optimiser \<open>ex_nsga2\<close>, constructed with one
  objective and the hypervolume class imported, has tracking on, and
  \<^verbatim>\<open>set_ref_point\<close> accepts and stores a reference point of length one.
\<close>

theorem single_objective_tracking_on_before_setup:
  "nsga2_init [''Mapping_Width''] True = Inr ex_nsga2
   \<and> length (eval_list ex_nsga2) = 1
   \<and> hv_logging ex_nsga2
   \<and> set_ref_point ex_nsga2 [5] = (True, [], ex_nsga2\<lparr>hv_refpoint := Some [5]\<rparr>)"
  by (simp add: nsga2_init_def ex_nsga2_def set_ref_point_def)

end
